(* ===== verification/Prelude.thy ===== *)
theory Prelude
  imports Main "HOL-Library.Word" "HOL-Library.Sublist"
begin

text \<open>
  Shared vocabulary of the development: the C types the program uses (bytes, 32-bit
  words, file and watch descriptors), the \<open>errno\<close> values the kernel reports, the ways a
  run of the process can end abnormally, and the few C library routines the sources call
  on strings and integers (\<open>printf("%d")\<close>, \<open>strstr\<close>, reading a NUL-terminated string
  out of a byte buffer, and the little-endian layout of a 32-bit field).  The generic
  lemmas about them are collected in the named theorem lists below so that the component
  theories can use them with \<open>simp add:\<close>.
\<close>

unbundle bit_operations_syntax

named_theorems cstring_simps "facts about C strings read from byte buffers"
named_theorems wire_simps "facts about the little-endian layout of 32-bit fields"

type_synonym byte = "8 word"
type_synonym u32 = "32 word"
type_synonym fd = int
type_synonym wd = int

subsection \<open>Errors\<close>

text \<open>The \<open>errno\<close> values that the system calls of the program can report.\<close>

datatype errno = EINTR | EAGAIN | ENOENT | EEXIST | EBADF | EINVAL | ENAMETOOLONG
  | ENOSPC | EMFILE | EIO

text \<open>
  How a run of the process can stop: \<open>Fatal call e\<close> is \<open>fatal("<call>: %m")\<close> of
  \<open>src/util.h\<close> (a diagnostic on stderr and \<open>exit(EXIT_FAILURE)\<close>); \<open>Crash what\<close> is
  undefined behaviour of the C code (a NULL dereference, a write past a stack buffer);
  \<open>Foreign_read fd\<close> is a \<open>read\<close> on a descriptor that is not the inotify instance, whose
  contents the model does not describe.
\<close>

datatype failure = Fatal string errno | Crash string | Foreign_read fd

text \<open>\<open>strerror\<close>, the text that \<open>%m\<close> prints (glibc's messages).\<close>

definition strerror :: "errno \<Rightarrow> string" where
  "strerror e = (case e of
      EINTR \<Rightarrow> ''Interrupted system call''
    | EAGAIN \<Rightarrow> ''Resource temporarily unavailable''
    | ENOENT \<Rightarrow> ''No such file or directory''
    | EEXIST \<Rightarrow> ''File exists''
    | EBADF \<Rightarrow> ''Bad file descriptor''
    | EINVAL \<Rightarrow> ''Invalid argument''
    | ENAMETOOLONG \<Rightarrow> ''File name too long''
    | ENOSPC \<Rightarrow> ''No space left on device''
    | EMFILE \<Rightarrow> ''Too many open files''
    | EIO \<Rightarrow> ''Input/output error'')"

text \<open>
  \<open>fatal(format, ...)\<close> of \<open>src/util.h\<close>: \<open>"fatal error: "\<close>, the formatted message and a
  newline on stderr, then \<open>exit(EXIT_FAILURE)\<close>.  Every call of the program passes a format
  \<open>"<msg>: %m"\<close>, which a \<open>Fatal msg e\<close> value stands for.
\<close>

definition EXIT_FAILURE :: int where "EXIT_FAILURE = 1"

definition fatal_line :: "string \<Rightarrow> errno \<Rightarrow> string" where
  "fatal_line msg e = ''fatal error: '' @ msg @ '': '' @ strerror e"

subsection \<open>Decimal printing, as \<open>printf("%d")\<close>\<close>

definition digit_char :: "nat \<Rightarrow> char" where
  "digit_char d = ''0123456789'' ! d"

fun dec_nat :: "nat \<Rightarrow> string" where
  "dec_nat n = (if n < 10 then [digit_char n]
                else dec_nat (n div 10) @ [digit_char (n mod 10)])"

declare dec_nat.simps [simp del]

definition dec_int :: "int \<Rightarrow> string" where
  "dec_int i = (if i < 0 then CHR ''-'' # dec_nat (nat (- i)) else dec_nat (nat i))"

text \<open>Reading a printed number back: the value of its digits in base \<open>b\<close>.\<close>

definition digit_value :: "char \<Rightarrow> nat" where
  "digit_value c = of_char c - 48"

definition read_base :: "nat \<Rightarrow> string \<Rightarrow> nat" where
  "read_base b s = foldl (\<lambda>acc c. acc * b + digit_value c) 0 s"

subsection \<open>C strings and memory layout\<close>

text \<open>
  \<open>strstr(hay, needle) != NULL\<close>: the needle occurs as a contiguous part of the haystack
  (the empty needle occurs in every string).  A C \<open>char\<close> is one byte.  \<open>cstr\<close> is the
  C string that starts at the beginning of a byte buffer: the bytes up to the first NUL.
  \<open>le32\<close> is the layout of a \<open>uint32_t\<close> or \<open>int\<close> field on a little-endian machine;
  \<open>int32_ok\<close> says that an \<open>int\<close> value fits 32 bits.
\<close>

definition strstr_found :: "string \<Rightarrow> string \<Rightarrow> bool" where
  "strstr_found hay needle \<longleftrightarrow> sublist needle hay"

definition char_of_byte :: "byte \<Rightarrow> char" where
  "char_of_byte b = char_of (unat b)"

definition byte_of_char :: "char \<Rightarrow> byte" where
  "byte_of_char c = word_of_nat (of_char c)"

definition bytes_of_string :: "string \<Rightarrow> byte list" where
  "bytes_of_string s = map byte_of_char s"

definition cstr :: "byte list \<Rightarrow> string" where
  "cstr bs = map char_of_byte (takeWhile (\<lambda>b. b \<noteq> 0) bs)"

definition le32 :: "u32 \<Rightarrow> byte list" where
  "le32 w = [ucast w, ucast (drop_bit 8 w), ucast (drop_bit 16 w), ucast (drop_bit 24 w)]"

definition of_le32 :: "byte list \<Rightarrow> u32" where
  "of_le32 bs = ucast (bs ! 0) OR push_bit 8 (ucast (bs ! 1))
     OR push_bit 16 (ucast (bs ! 2)) OR push_bit 24 (ucast (bs ! 3))"

definition int32_ok :: "int \<Rightarrow> bool" where
  "int32_ok i \<longleftrightarrow> - (2 ^ 31) \<le> i \<and> i < 2 ^ 31"

subsection \<open>Lemmas on decimal printing\<close>

lemma dec_nat_nonempty: "dec_nat n \<noteq> []"
  by (subst dec_nat.simps) simp

lemma length_dec_nat_le: "n < 10 ^ k \<Longrightarrow> 0 < k \<Longrightarrow> length (dec_nat n) \<le> k"
proof (induction n arbitrary: k rule: dec_nat.induct)
  case (1 n)
  show ?case
  proof (cases "n < 10")
    case True
    with "1.prems" show ?thesis by (subst dec_nat.simps) simp
  next
    case False
    obtain k' where k: "k = Suc k'" using "1.prems"(2) by (cases k) auto
    with False "1.prems"(1) have "n div 10 < 10 ^ k'"
      by (simp add: less_mult_imp_div_less mult.commute)
    moreover have "0 < k'"
      using False "1.prems"(1) k by (cases k') auto
    ultimately have "length (dec_nat (n div 10)) \<le> k'"
      using "1.IH" False by blast
    with False k show ?thesis by (subst dec_nat.simps) simp
  qed
qed

lemma digit_value_digit_char: "d < 10 \<Longrightarrow> digit_value (digit_char d) = d"
  by (auto simp: digit_value_def digit_char_def less_Suc_eq numeral_eq_Suc)

lemma read_base_snoc: "read_base b (s @ [c]) = read_base b s * b + digit_value c"
  by (simp add: read_base_def)

lemma read_base_dec_nat: "read_base 10 (dec_nat n) = n"
proof (induction n rule: dec_nat.induct)
  case (1 n)
  show ?case
  proof (cases "n < 10")
    case True
    then show ?thesis by (subst dec_nat.simps) (simp add: read_base_def digit_value_digit_char)
  next
    case False
    then have "dec_nat n = dec_nat (n div 10) @ [digit_char (n mod 10)]" by (subst dec_nat.simps) simp
    then show ?thesis using "1.IH" False by (simp add: read_base_snoc digit_value_digit_char)
  qed
qed

text \<open>A 32-bit \<open>int\<close> prints in at most eleven characters (\<open>-2147483648\<close>).\<close>

lemma length_dec_int_sint: "length (dec_int (sint (w :: u32))) \<le> 11"
proof -
  have lo: "- (2 ^ 31) \<le> sint w" and hi: "sint w < 2 ^ 31"
    using sint_ge [of w] sint_lt [of w] by simp_all
  have "nat \<bar>sint w\<bar> < 10 ^ 10"
    using lo hi by (simp add: nat_less_iff)
  then have "length (dec_nat (nat \<bar>sint w\<bar>)) \<le> 10"
    by (rule length_dec_nat_le) simp
  then show ?thesis
    by (cases "sint w < 0") (simp_all add: dec_int_def)
qed

subsection \<open>Lemmas on C strings\<close>

lemma strstr_found_Nil [simp]: "strstr_found hay []"
  by (simp add: strstr_found_def)

lemma strstr_found_self [simp]: "strstr_found s s"
  by (simp add: strstr_found_def)

lemma strstr_found_length: "strstr_found hay needle \<Longrightarrow> length needle \<le> length hay"
  by (auto simp: strstr_found_def sublist_def)

lemma char_of_byte_of_char [simp]: "char_of_byte (byte_of_char c) = c"
  by (simp add: char_of_byte_def byte_of_char_def unat_of_nat)

lemma byte_of_char_eq_0 [simp]: "byte_of_char c = 0 \<longleftrightarrow> c = CHR 0x00"
proof -
  have "byte_of_char c = 0 \<longleftrightarrow> unat (byte_of_char c) = 0"
    by (simp only: unat_eq_zero)
  also have "\<dots> \<longleftrightarrow> (of_char c :: nat) = of_char (CHR 0x00)"
    by (simp add: byte_of_char_def unat_of_nat)
  also have "\<dots> \<longleftrightarrow> c = CHR 0x00"
    by (rule of_char_eq_iff)
  finally show ?thesis .
qed

lemma length_bytes_of_string [simp]: "length (bytes_of_string s) = length s"
  by (simp add: bytes_of_string_def)

lemma cstr_string [cstring_simps]:
  "CHR 0x00 \<notin> set s \<Longrightarrow> cstr (bytes_of_string s @ 0 # rest) = s"
proof (induction s)
  case Nil
  then show ?case by (simp add: cstr_def bytes_of_string_def)
next
  case (Cons c s)
  then show ?case by (auto simp: cstr_def bytes_of_string_def)
qed

lemma cstr_Nil_start [cstring_simps]: "cstr (0 # rest) = []"
  by (simp add: cstr_def)

lemma length_cstr: "length (cstr bs) \<le> length bs"
  by (simp add: cstr_def length_takeWhile_le)

subsection \<open>Lemmas on little-endian 32-bit fields\<close>

lemma length_le32 [simp, wire_simps]: "length (le32 w) = 4"
  by (simp add: le32_def)

lemma of_le32_le32 [simp, wire_simps]: "of_le32 (le32 w) = w"
proof (rule bit_word_eqI)
  fix n assume "n < LENGTH(32)"
  then have "n < 32" by simp
  then consider "n < 8" | "8 \<le> n \<and> n < 16" | "16 \<le> n \<and> n < 24" | "24 \<le> n \<and> n < 32"
    by linarith
  then show "bit (of_le32 (le32 w)) n = bit w n"
    by cases (auto simp: of_le32_def le32_def bit_simps)
qed

lemma of_le32_append [wire_simps]: "of_le32 (le32 w @ rest) = w"
proof -
  have "of_le32 (le32 w @ rest) = of_le32 (le32 w)"
    by (simp add: of_le32_def nth_append)
  then show ?thesis by simp
qed

text \<open>A C \<open>int\<close> stored as its 32-bit pattern reads back unchanged when it is in range.\<close>

lemma sint_of_int32 [wire_simps]: "int32_ok i \<Longrightarrow> sint (word_of_int i :: u32) = i"
  by (simp add: int32_ok_def sint_sbintrunc' signed_take_bit_int_eq_self)

end
