(* ===== verification/Inotify_Event.thy ===== *)
theory Inotify_Event
  imports Prelude
begin

text \<open>
  The inotify notification record as it crosses the kernel boundary.  The event masks of
  \<open><sys/inotify.h>\<close> and the program's \<open>default_events\<close> (\<open>src/main.c\<close>); the
  decoded record \<open>struct inotify_event\<close>; the kernel's byte layout of one record (header
  of four 32-bit fields, then the name padded with NULs to a multiple of 16 bytes); the
  program's own reading of its read buffer, which overlays \<open>struct inotify_event\<close> on the
  first bytes of \<open>buf\<close> (\<open>read_inotify_events\<close>); and the decoder the specification asks
  for, which walks every record of a buffer by its length field.  The lemmas show the
  round trip of the layout, that one record always fits the program's buffer, and what
  the overlay reads when the buffer holds a record without a name.
\<close>

unbundle bit_operations_syntax

subsection \<open>Event masks\<close>

definition IN_MODIFY :: u32 where "IN_MODIFY = 0x00000002"
definition IN_MOVED_FROM :: u32 where "IN_MOVED_FROM = 0x00000040"
definition IN_MOVED_TO :: u32 where "IN_MOVED_TO = 0x00000080"
definition IN_CREATE :: u32 where "IN_CREATE = 0x00000100"
definition IN_DELETE :: u32 where "IN_DELETE = 0x00000200"
definition IN_DELETE_SELF :: u32 where "IN_DELETE_SELF = 0x00000400"
definition IN_MOVE_SELF :: u32 where "IN_MOVE_SELF = 0x00000800"
definition IN_Q_OVERFLOW :: u32 where "IN_Q_OVERFLOW = 0x00004000"
definition IN_IGNORED :: u32 where "IN_IGNORED = 0x00008000"
definition IN_ISDIR :: u32 where "IN_ISDIR = 0x40000000"
definition IN_MOVE :: u32 where "IN_MOVE = IN_MOVED_FROM OR IN_MOVED_TO"

lemmas mask_defs = IN_MODIFY_def IN_MOVED_FROM_def IN_MOVED_TO_def IN_CREATE_def
  IN_DELETE_def IN_DELETE_SELF_def IN_MOVE_SELF_def IN_Q_OVERFLOW_def IN_IGNORED_def
  IN_ISDIR_def IN_MOVE_def

text \<open>\<open>default_events\<close>: the mask every watch of the program is registered with.\<close>

definition default_events :: u32 where
  "default_events = IN_CREATE OR IN_DELETE OR IN_MODIFY OR IN_MOVE OR IN_MOVE_SELF
     OR IN_DELETE_SELF"

subsection \<open>Sizes\<close>

text \<open>
  \<open>NAME_MAX\<close> and \<open>PATH_MAX\<close> of \<open><limits.h>\<close>; the header of a record is four 32-bit
  fields; the program reads into \<open>buf[sizeof(struct inotify_event) + NAME_MAX + 1]\<close>.
\<close>

definition NAME_MAX :: nat where "NAME_MAX = 255"
definition PATH_MAX :: nat where "PATH_MAX = 4096"
definition EVENT_HDR :: nat where "EVENT_HDR = 16"
definition READ_BUF :: nat where "READ_BUF = EVENT_HDR + NAME_MAX + 1"

lemmas size_defs = NAME_MAX_def PATH_MAX_def EVENT_HDR_def READ_BUF_def

subsection \<open>The decoded record\<close>

text \<open>\<open>struct inotify_event\<close>, with the name read as a C string.\<close>

record inotify_event =
  ie_wd :: wd
  ie_mask :: u32
  ie_cookie :: u32
  ie_name :: string

text \<open>The records the kernel produces: a 32-bit watch descriptor, a name of at most
  \<open>NAME_MAX\<close> bytes that holds no NUL.\<close>

definition valid_event :: "inotify_event \<Rightarrow> bool" where
  "valid_event ev \<longleftrightarrow> int32_ok (ie_wd ev) \<and> CHR 0x00 \<notin> set (ie_name ev)
     \<and> length (ie_name ev) \<le> NAME_MAX"

subsection \<open>The kernel's layout of one record\<close>

text \<open>
  The kernel pads a non-empty name with at least one NUL up to a multiple of the header
  size and stores the padded length in \<open>len\<close>; an event without a name has \<open>len = 0\<close>.
\<close>

definition name_len :: "string \<Rightarrow> nat" where
  "name_len name = (if name = [] then 0
     else ((length name + 1 + EVENT_HDR - 1) div EVENT_HDR) * EVENT_HDR)"

definition encode_event :: "inotify_event \<Rightarrow> byte list" where
  "encode_event ev =
     le32 (word_of_int (ie_wd ev)) @ le32 (ie_mask ev) @ le32 (ie_cookie ev)
     @ le32 (of_nat (name_len (ie_name ev)))
     @ bytes_of_string (ie_name ev)
     @ replicate (name_len (ie_name ev) - length (ie_name ev)) 0"

subsection \<open>The program's reading of its buffer\<close>

text \<open>
  \<open>event = (struct inotify_event *)buf\<close>: the fields are read from the first sixteen
  bytes of the buffer, and \<open>event->name\<close> is the C string that starts right after the
  header, whatever the \<open>len\<close> field says.
\<close>

definition buf_event :: "byte list \<Rightarrow> inotify_event" where
  "buf_event buf =
     \<lparr>ie_wd = sint (of_le32 buf), ie_mask = of_le32 (drop 4 buf),
      ie_cookie = of_le32 (drop 8 buf), ie_name = cstr (drop EVENT_HDR buf)\<rparr>"

text \<open>The length field of the record at the start of a buffer.\<close>

definition buf_len :: "byte list \<Rightarrow> nat" where
  "buf_len buf = unat (of_le32 (drop 12 buf))"

subsection \<open>The decoder of the specification\<close>

text \<open>
  The specification (section 4.3) asks for every record of one read to be decoded,
  advancing by exactly \<open>header + len\<close> bytes each time.  This is that decoder; the name
  of each record is read inside its own \<open>len\<close> bytes.
\<close>

function decode_records :: "byte list \<Rightarrow> inotify_event list" where
  "decode_records bs =
     (if length bs < EVENT_HDR then []
      else buf_event (take (EVENT_HDR + buf_len bs) bs)
           # decode_records (drop (EVENT_HDR + buf_len bs) bs))"
  by pat_completeness auto
termination
  by (relation "measure length") (auto simp: EVENT_HDR_def)

declare decode_records.simps [simp del]

subsection \<open>Lemmas on the layout\<close>

lemma name_len_Nil [simp]: "name_len [] = 0"
  by (simp add: name_len_def)

lemma name_len_bounds:
  assumes "name \<noteq> []"
  shows "length name < name_len name" and "name_len name \<le> length name + EVENT_HDR"
proof -
  let ?n = "length name + 1"
  have "?n \<le> ((?n + 15) div 16) * 16" by linarith
  then show "length name < name_len name"
    using assms by (simp add: name_len_def EVENT_HDR_def)
  have "((?n + 15) div 16) * 16 \<le> ?n + 15" by linarith
  then show "name_len name \<le> length name + EVENT_HDR"
    using assms by (simp add: name_len_def EVENT_HDR_def)
qed

lemma name_len_max: "length name \<le> NAME_MAX \<Longrightarrow> name_len name \<le> NAME_MAX + 1"
proof (cases "name = []")
  case False
  assume le: "length name \<le> NAME_MAX"
  have "((length name + 1 + 15) div 16) * 16 \<le> 256"
    using le by (simp add: NAME_MAX_def)
  with False show ?thesis by (simp add: name_len_def EVENT_HDR_def NAME_MAX_def)
qed (simp add: NAME_MAX_def)

lemma length_encode_event [simp]:
  "length (encode_event ev) = EVENT_HDR + name_len (ie_name ev)"
proof (cases "ie_name ev = []")
  case True
  then show ?thesis by (simp add: encode_event_def EVENT_HDR_def)
next
  case False
  then have "length (ie_name ev) < name_len (ie_name ev)" by (rule name_len_bounds)
  then show ?thesis by (simp add: encode_event_def EVENT_HDR_def)
qed

lemma encode_event_header:
  "encode_event ev = le32 (word_of_int (ie_wd ev)) @ le32 (ie_mask ev) @ le32 (ie_cookie ev)
     @ le32 (of_nat (name_len (ie_name ev))) @ drop EVENT_HDR (encode_event ev)"
  by (simp add: encode_event_def EVENT_HDR_def)

lemma buf_len_encode [simp]:
  assumes "valid_event ev"
  shows "buf_len (encode_event ev @ rest) = name_len (ie_name ev)"
proof -
  have "name_len (ie_name ev) \<le> 256"
    using assms name_len_max by (auto simp: valid_event_def NAME_MAX_def)
  then have "unat (of_nat (name_len (ie_name ev)) :: u32) = name_len (ie_name ev)"
    by (simp add: unat_of_nat)
  then show ?thesis
    by (simp add: buf_len_def encode_event_def of_le32_append)
qed

text \<open>The name part of a record, as the overlay reads it: the name, then a NUL.\<close>

lemma encode_event_name_part:
  assumes "ie_name ev \<noteq> []"
  shows "drop EVENT_HDR (encode_event ev @ rest)
           = bytes_of_string (ie_name ev) @ 0 # replicate (name_len (ie_name ev) - length (ie_name ev) - 1) 0 @ rest"
proof -
  have "length (ie_name ev) < name_len (ie_name ev)"
    using assms by (rule name_len_bounds)
  then obtain m where m: "name_len (ie_name ev) - length (ie_name ev) = Suc m"
    by (metis Suc_diff_Suc)
  have "drop EVENT_HDR (encode_event ev @ rest)
          = bytes_of_string (ie_name ev) @ replicate (name_len (ie_name ev) - length (ie_name ev)) 0 @ rest"
    by (simp add: encode_event_def EVENT_HDR_def)
  then show ?thesis by (simp add: m)
qed

lemma encode_event_nameless:
  "ie_name ev = [] \<Longrightarrow> drop EVENT_HDR (encode_event ev @ rest) = rest"
  by (simp add: encode_event_def EVENT_HDR_def bytes_of_string_def)

text \<open>The header fields read back; the name is whatever C string follows the header.\<close>

lemma buf_event_encode_header:
  assumes "valid_event ev"
  shows "buf_event (encode_event ev @ rest)
           = ev\<lparr>ie_name := cstr (drop EVENT_HDR (encode_event ev @ rest))\<rparr>"
proof -
  have wd: "of_le32 (encode_event ev @ rest) = word_of_int (ie_wd ev)"
    by (simp add: encode_event_def of_le32_append)
  have mask: "drop 4 (encode_event ev @ rest) = le32 (ie_mask ev) @ drop 8 (encode_event ev @ rest)"
    by (simp add: encode_event_def)
  have cookie: "drop 8 (encode_event ev @ rest) = le32 (ie_cookie ev) @ drop 12 (encode_event ev @ rest)"
    by (simp add: encode_event_def)
  show ?thesis
    using assms wd mask cookie
    by (simp add: buf_event_def valid_event_def sint_of_int32 of_le32_append)
qed

lemma buf_event_named:
  assumes "valid_event ev" and "ie_name ev \<noteq> []"
  shows "buf_event (encode_event ev @ rest) = ev"
proof -
  have nul: "CHR 0x00 \<notin> set (ie_name ev)" using assms(1) by (simp add: valid_event_def)
  have "cstr (drop EVENT_HDR (encode_event ev @ rest)) = ie_name ev"
    by (simp only: encode_event_name_part [OF assms(2)] cstr_string [OF nul])
  then show ?thesis
    using buf_event_encode_header [OF assms(1)] by simp
qed

lemma buf_event_encode [simp]:
  assumes "valid_event ev"
  shows "buf_event (encode_event ev) = ev"
proof (cases "ie_name ev = []")
  case True
  have "cstr (drop EVENT_HDR (encode_event ev @ [])) = []"
    using True by (simp only: encode_event_nameless) (simp add: cstr_def)
  with True show ?thesis
    using buf_event_encode_header [OF assms, of "[]"] by simp
next
  case False
  then show ?thesis using buf_event_named [OF assms False, of "[]"] by simp
qed

lemma decode_records_cons:
  assumes "valid_event ev"
  shows "decode_records (encode_event ev @ rest) = ev # decode_records rest"
proof -
  have len: "EVENT_HDR + buf_len (encode_event ev @ rest) = length (encode_event ev)"
    using assms by simp
  have "\<not> length (encode_event ev @ rest) < EVENT_HDR" by simp
  then show ?thesis
    using assms by (simp add: decode_records.simps [of "encode_event ev @ rest"] len)
qed

lemma decode_records_Nil [simp]: "decode_records [] = []"
  by (subst decode_records.simps) (simp add: EVENT_HDR_def)

text \<open>Every record the kernel produces fits the program's read buffer.\<close>

lemma encode_event_fits: "valid_event ev \<Longrightarrow> length (encode_event ev) \<le> READ_BUF"
  using name_len_max [of "ie_name ev"] by (simp add: valid_event_def READ_BUF_def)

lemma encode_event_nonempty: "encode_event ev \<noteq> []"
  by (simp add: encode_event_def le32_def)

text \<open>Every record ends in a zero byte: the last padding NUL, or the top byte of a zero
  length field.\<close>

lemma last_encode_event: "last (encode_event ev) = 0"
proof (cases "ie_name ev = []")
  case True
  then show ?thesis by (simp add: encode_event_def bytes_of_string_def le32_def)
next
  case False
  then have "length (ie_name ev) < name_len (ie_name ev)" by (rule name_len_bounds)
  then obtain m where m: "name_len (ie_name ev) - length (ie_name ev) = Suc m"
    by (metis Suc_diff_Suc)
  have "encode_event ev = (le32 (word_of_int (ie_wd ev)) @ le32 (ie_mask ev) @ le32 (ie_cookie ev)
          @ le32 (of_nat (name_len (ie_name ev))) @ bytes_of_string (ie_name ev)) @ replicate (Suc m) 0"
    by (simp add: encode_event_def m)
  then show ?thesis by (simp only: last_appendR replicate_Suc) simp
qed

lemma decode_records_concat:
  "\<forall>ev \<in> set evs. valid_event ev \<Longrightarrow> decode_records (concat (map encode_event evs)) = evs"
  by (induction evs) (simp_all add: decode_records_cons)

subsection \<open>Properties of the cast\<close>

text \<open>
  C11.  Reading a buffer that starts with a record through the cast gives back the
  record's descriptor, mask and cookie; its name when it has one; and, for a nameless
  record, whatever C string the buffer holds after the header.
\<close>

theorem buf_event_cast:
  "valid_event ev \<Longrightarrow>
     buf_event (encode_event ev @ rest) = (if ie_name ev = [] then ev\<lparr>ie_name := cstr rest\<rparr> else ev)"
  using buf_event_encode_header [of ev rest] buf_event_named [of ev rest] encode_event_nameless [of ev rest]
  by auto

theorem buf_event_cast_witness:
  "buf_event (encode_event \<lparr>ie_wd = 1, ie_mask = IN_DELETE_SELF, ie_cookie = 0, ie_name = []\<rparr>
                @ bytes_of_string ''old'' @ [0])
     = \<lparr>ie_wd = 1, ie_mask = IN_DELETE_SELF, ie_cookie = 0, ie_name = ''old''\<rparr>"
proof -
  have "valid_event \<lparr>ie_wd = 1, ie_mask = IN_DELETE_SELF, ie_cookie = 0, ie_name = []\<rparr>"
    by (simp add: valid_event_def int32_ok_def)
  moreover have "cstr (bytes_of_string ''old'' @ [0]) = ''old''"
    by (simp add: cstr_string)
  ultimately show ?thesis
    using buf_event_cast [of "\<lparr>ie_wd = 1, ie_mask = IN_DELETE_SELF, ie_cookie = 0, ie_name = []\<rparr>"
        "bytes_of_string ''old'' @ [0]"] by simp
qed



end
