(* ===== verification/Describe.thy ===== *)
theory Describe
  imports Inotify_Event
begin

text \<open>
  The symbolic description of an event mask, \<open>inspect_inotify_event\<close> of
  \<open>src/main.c\<close>.  The C function tests seven mask bits in a fixed order, appends the name
  of each bit that is set to a static buffer \<open>desc[NAME_MAX]\<close> with the macro
  \<open>CONCAT_INOTIFY_EVENT\<close> (a comma before every name but the first), and, when a move bit
  is set, prints a line to stdout and appends \<open>" cookie=%d"\<close> with \<open>snprintf\<close> bounded by
  the space left in the buffer.  The model returns the description and the lines printed.
  The lemmas give the description in closed form, show that it never reaches the size of
  the buffer (so \<open>strcat\<close> never overflows and \<open>snprintf\<close> never truncates), and state
  what the two halves of a rename print.
\<close>

unbundle bit_operations_syntax

subsection \<open>The description\<close>

text \<open>\<open>CONCAT_INOTIFY_EVENT(evname)\<close>: a comma first unless the buffer is empty.\<close>

definition concat_inotify_event :: "string \<Rightarrow> string \<Rightarrow> string" where
  "concat_inotify_event desc evname =
     (if 0 < length desc then desc @ '','' else desc) @ evname"

text \<open>The seven tests of the function, in the order of the source.\<close>

definition event_names :: "(u32 \<times> string) list" where
  "event_names = [(IN_CREATE, ''CREATE''), (IN_DELETE, ''DELETE''), (IN_MODIFY, ''MODIFY''),
     (IN_ISDIR, ''ISDIR''), (IN_MOVE_SELF, ''MOVE_SELF''), (IN_MOVED_TO, ''MOVED_TO''),
     (IN_MOVED_FROM, ''MOVED_FROM'')]"

definition test_event :: "u32 \<Rightarrow> string \<Rightarrow> u32 \<times> string \<Rightarrow> string" where
  "test_event events desc bn =
     (if events AND fst bn \<noteq> 0 then concat_inotify_event desc (snd bn) else desc)"

text \<open>\<open>desc[0] = '\0'\<close> and the sequence of \<open>if (events & IN_...)\<close> tests.\<close>

definition describe_mask :: "u32 \<Rightarrow> string" where
  "describe_mask events = foldl (test_event events) [] event_names"

text \<open>
  \<open>snprintf(desc + strlen(desc), sizeof(desc) - strlen(desc), ...)\<close>: at most
  \<open>sz - strlen(desc) - 1\<close> characters are appended, then a NUL.
\<close>

definition snprintf_append :: "nat \<Rightarrow> string \<Rightarrow> string \<Rightarrow> string" where
  "snprintf_append sz desc s = desc @ take (sz - length desc - 1) s"

definition cookie_text :: "u32 \<Rightarrow> string" where
  "cookie_text cookie = '' cookie='' @ dec_int (sint cookie)"

definition in_move_line :: "inotify_event \<Rightarrow> string" where
  "in_move_line ev =
     ''IN_MOVE for event: wd='' @ dec_int (ie_wd ev) @ '', name='' @ [CHR 0x27]
     @ ie_name ev @ [CHR 0x27]"

text \<open>The whole function: the description and the lines it prints to stdout.\<close>

definition inspect_inotify_event :: "inotify_event \<Rightarrow> string \<times> string list" where
  "inspect_inotify_event ev =
     (let events = ie_mask ev; desc = describe_mask events
      in if events AND IN_MOVE \<noteq> 0
         then (snprintf_append NAME_MAX desc (cookie_text (ie_cookie ev)), [in_move_line ev])
         else (desc, []))"

subsection \<open>Closed form of the description\<close>

text \<open>The names of the bits that are set, in the order of the tests, joined by commas.\<close>

definition join_comma :: "string list \<Rightarrow> string" where
  "join_comma xs = (case xs of [] \<Rightarrow> [] | x # ys \<Rightarrow> x @ concat (map (\<lambda>y. CHR '','' # y) ys))"

definition set_names :: "u32 \<Rightarrow> string list" where
  "set_names events = map snd (filter (\<lambda>bn. events AND fst bn \<noteq> 0) event_names)"

text \<open>Reading a description back: split it at the commas.\<close>

fun split_comma :: "string \<Rightarrow> string list" where
  "split_comma [] = [[]]"
| "split_comma (c # cs) =
     (if c = CHR '','' then [] # split_comma cs
      else (case split_comma cs of [] \<Rightarrow> [[c]] | w # ws \<Rightarrow> (c # w) # ws))"

lemma event_names_nonempty: "bn \<in> set event_names \<Longrightarrow> snd bn \<noteq> []"
  by (auto simp: event_names_def)

lemma join_comma_snoc:
  "join_comma (acc @ [y]) = (if acc = [] then y else join_comma acc @ '','' @ y)"
  by (cases acc) (simp_all add: join_comma_def)

lemma join_comma_empty: "(\<forall>x \<in> set xs. x \<noteq> []) \<Longrightarrow> join_comma xs = [] \<longleftrightarrow> xs = []"
  by (cases xs) (simp_all add: join_comma_def)

lemma foldl_test_event:
  assumes "\<forall>bn \<in> set bns. snd bn \<noteq> []" and "\<forall>x \<in> set acc. x \<noteq> []"
  shows "foldl (test_event events) (join_comma acc) bns
           = join_comma (acc @ map snd (filter (\<lambda>bn. events AND fst bn \<noteq> 0) bns))"
  using assms
proof (induction bns arbitrary: acc)
  case Nil
  then show ?case by simp
next
  case (Cons bn bns)
  let ?acc' = "acc @ (if events AND fst bn \<noteq> 0 then [snd bn] else [])"
  have "join_comma acc = [] \<longleftrightarrow> acc = []"
    using Cons.prems(2) by (rule join_comma_empty)
  then have step: "test_event events (join_comma acc) bn = join_comma ?acc'"
    by (auto simp: test_event_def concat_inotify_event_def join_comma_snoc)
  have "\<forall>x \<in> set ?acc'. x \<noteq> []"
    using Cons.prems by auto
  then have "foldl (test_event events) (join_comma ?acc') bns
               = join_comma (?acc' @ map snd (filter (\<lambda>bn. events AND fst bn \<noteq> 0) bns))"
    using Cons.prems(1) Cons.IH by simp
  then show ?case
    using step by simp
qed

lemma describe_mask_set_names: "describe_mask events = join_comma (set_names events)"
proof -
  have "foldl (test_event events) (join_comma []) event_names = join_comma (set_names events)"
    using foldl_test_event [of event_names "[]" events] event_names_nonempty
    by (simp add: set_names_def)
  then show ?thesis by (simp add: describe_mask_def join_comma_def)
qed

lemma split_comma_no_comma: "CHR '','' \<notin> set x \<Longrightarrow> split_comma x = [x]"
  by (induction x) auto

lemma split_comma_append:
  "CHR '','' \<notin> set x \<Longrightarrow> split_comma (x @ CHR '','' # y) = x # split_comma y"
proof (induction x)
  case Nil
  then show ?case by simp
next
  case (Cons c x)
  then show ?case by auto
qed

lemma split_join_comma:
  "\<forall>x \<in> set xs. CHR '','' \<notin> set x \<Longrightarrow> xs \<noteq> [] \<Longrightarrow> split_comma (join_comma xs) = xs"
proof (induction xs rule: induct_list012)
  case 1
  then show ?case by simp
next
  case (2 x)
  then show ?case by (simp add: join_comma_def split_comma_no_comma)
next
  case (3 x y zs)
  have "join_comma (x # y # zs) = x @ CHR '','' # join_comma (y # zs)"
    by (simp add: join_comma_def)
  then show ?case using 3 by (simp add: split_comma_append)
qed

lemma event_names_no_comma: "bn \<in> set event_names \<Longrightarrow> CHR '','' \<notin> set (snd bn)"
  by (auto simp: event_names_def)

lemma length_join_comma: "length (join_comma xs) \<le> sum_list (map (\<lambda>x. length x + 1) xs)"
proof (cases xs)
  case (Cons x ys)
  have "length (concat (map (\<lambda>y. CHR '','' # y) ys)) = sum_list (map (\<lambda>y. length y + 1) ys)"
    by (induction ys) simp_all
  with Cons show ?thesis by (simp add: join_comma_def)
qed (simp add: join_comma_def)

lemma length_describe_mask: "length (describe_mask events) \<le> 57"
proof -
  have "length (describe_mask events) \<le> sum_list (map (\<lambda>x. length x + 1) (set_names events))"
    by (simp only: describe_mask_set_names) (rule length_join_comma)
  also have "\<dots> = sum_list (map (\<lambda>bn. length (snd bn) + 1)
                     (filter (\<lambda>bn. events AND fst bn \<noteq> 0) event_names))"
    by (simp add: set_names_def comp_def)
  also have "\<dots> \<le> sum_list (map (\<lambda>bn. length (snd bn) + 1) event_names)"
    by (rule sum_list_filter_le_nat)
  also have "\<dots> = 57" by (simp add: event_names_def)
  finally show ?thesis .
qed

lemma length_cookie_text: "length (cookie_text c) \<le> 19"
  using length_dec_int_sint [of c] by (simp add: cookie_text_def)

text \<open>\<open>snprintf\<close> never cuts the cookie: the buffer has room for it.\<close>

lemma snprintf_cookie_fits:
  "snprintf_append NAME_MAX (describe_mask m) (cookie_text c) = describe_mask m @ cookie_text c"
proof -
  have "length (cookie_text c) \<le> NAME_MAX - length (describe_mask m) - 1"
    using length_describe_mask [of m] length_cookie_text [of c] by (simp add: NAME_MAX_def)
  then show ?thesis by (simp add: snprintf_append_def)
qed

lemma inspect_inotify_event_eq:
  "inspect_inotify_event ev =
     (if ie_mask ev AND IN_MOVE \<noteq> 0
      then (describe_mask (ie_mask ev) @ cookie_text (ie_cookie ev), [in_move_line ev])
      else (describe_mask (ie_mask ev), []))"
  by (simp add: inspect_inotify_event_def snprintf_cookie_fits Let_def)

text \<open>The definitions a concrete description unfolds to.\<close>

lemmas describe_eval = describe_mask_def event_names_def test_event_def concat_inotify_event_def mask_defs

subsection \<open>Properties of the description\<close>

text \<open>
  C15.  The description lists exactly the names of the mask bits that are set, among
  CREATE, DELETE, MODIFY, ISDIR, MOVE_SELF, MOVED_TO and MOVED_FROM, in that order,
  separated by commas: splitting it at the commas gives that list back.
\<close>

theorem describe_mask_names:
  "split_comma (describe_mask m) =
     (let names = map snd (filter (\<lambda>bn. m AND fst bn \<noteq> 0)
        [(IN_CREATE, ''CREATE''), (IN_DELETE, ''DELETE''), (IN_MODIFY, ''MODIFY''),
         (IN_ISDIR, ''ISDIR''), (IN_MOVE_SELF, ''MOVE_SELF''), (IN_MOVED_TO, ''MOVED_TO''),
         (IN_MOVED_FROM, ''MOVED_FROM'')])
      in if names = [] then [[]] else names)"
proof (cases "set_names m = []")
  case True
  then show ?thesis
    by (simp add: describe_mask_set_names join_comma_def set_names_def event_names_def Let_def)
next
  case False
  have "\<forall>x \<in> set (set_names m). CHR '','' \<notin> set x"
    using event_names_no_comma by (auto simp: set_names_def)
  then have "split_comma (describe_mask m) = set_names m"
    using False by (simp add: describe_mask_set_names split_join_comma)
  then show ?thesis using False by (simp add: set_names_def event_names_def Let_def)
qed

text \<open>
  C16.  The description never reaches the end of its static buffer \<open>desc[NAME_MAX]\<close>:
  the \<open>snprintf\<close> of the cookie is never truncated, and the description with its NUL fits.
\<close>

theorem inspect_description_fits:
  "fst (inspect_inotify_event ev) = describe_mask (ie_mask ev)
      @ (if ie_mask ev AND IN_MOVE \<noteq> 0 then cookie_text (ie_cookie ev) else [])
   \<and> length (fst (inspect_inotify_event ev)) < NAME_MAX"
  using length_describe_mask [of "ie_mask ev"] length_cookie_text [of "ie_cookie ev"]
  by (simp add: inspect_inotify_event_eq NAME_MAX_def)

text \<open>
  C17.  A record of either half of a rename (\<open>IN_MOVED_FROM\<close> or \<open>IN_MOVED_TO\<close>) gets its
  cookie appended to the description as \<open>" cookie=<n>"\<close>, and the \<open>IN_MOVE\<close> line is
  printed first.
\<close>

theorem inspect_rename_cookie:
  "ie_mask ev AND IN_MOVE \<noteq> 0 \<Longrightarrow>
     inspect_inotify_event ev
       = (describe_mask (ie_mask ev) @ '' cookie='' @ dec_int (sint (ie_cookie ev)), [in_move_line ev])"
  by (simp add: inspect_inotify_event_eq cookie_text_def)

theorem inspect_rename_cookie_witness:
  "fst (inspect_inotify_event \<lparr>ie_wd = 1, ie_mask = IN_MOVED_FROM, ie_cookie = 42, ie_name = ''x''\<rparr>)
     = ''MOVED_FROM cookie=42''
   \<and> fst (inspect_inotify_event \<lparr>ie_wd = 1, ie_mask = IN_MOVED_TO, ie_cookie = 42, ie_name = ''y''\<rparr>)
     = ''MOVED_TO cookie=42''"
  using inspect_rename_cookie [of "\<lparr>ie_wd = 1, ie_mask = IN_MOVED_FROM, ie_cookie = 42, ie_name = ''x''\<rparr>"]
    inspect_rename_cookie [of "\<lparr>ie_wd = 1, ie_mask = IN_MOVED_TO, ie_cookie = 42, ie_name = ''y''\<rparr>"]
  by (simp add: describe_eval dec_int_def dec_nat.simps digit_char_def)


end
