(* ===== verification/Kernel.thy ===== *)
theory Kernel
  imports Inotify_Event
begin

text \<open>
  The two kernel facilities the program calls, as the program sees them through
  \<open>inotify_init1\<close>, \<open>inotify_add_watch\<close>, \<open>read\<close>, \<open>epoll_create\<close>, \<open>epoll_ctl\<close> and
  \<open>epoll_wait\<close>.  They are not code of the repository: they are modelled from the
  specification (section 6, "external collaborators") and the Linux manual pages, as much
  as the program's behaviour depends on them.
  \<^item> An inotify instance keeps its watches (path to watch descriptor), the next descriptor
    to hand out, the queue of pending records, and the errors its next reads report
    (\<open>EINTR\<close> when a signal arrives, an I/O error).  Watching a path that is already
    watched returns its descriptor again; a fresh watch gets a descriptor never used
    before.  \<open>read\<close> copies as many whole records as fit the buffer, fails with
    \<open>EINVAL\<close> when the first does not fit, and with \<open>EAGAIN\<close> when the queue is empty
    (the instance is non-blocking).
  \<^item> An epoll instance keeps its interest list and its ready list.  Readiness is
    edge-triggered: an fd enters the ready list when new input arrives for it, and
    \<open>epoll_wait\<close> takes the entries it reports off the list.  With an empty ready list
    \<open>epoll_wait(..., -1)\<close> blocks, which the model writes as \<open>None\<close>.
  Paths stand for files: two spellings of one file (\<open>/tmp\<close> and \<open>/tmp/\<close>) are two
  different files here, where the kernel would give them one watch.
\<close>

unbundle bit_operations_syntax

subsection \<open>inotify\<close>

record ino_inst =
  iw_watches :: "(string \<times> wd) list"
  iw_next :: wd
  iw_queue :: "inotify_event list"
  iw_faults :: "errno list"

text \<open>Watch descriptors are C \<open>int\<close>s: the instance hands out at most \<open>INT_MAX\<close> of them.\<close>

definition WD_LIMIT :: int where "WD_LIMIT = 2 ^ 31 - 1"

definition ino_init :: ino_inst where
  "ino_init = \<lparr>iw_watches = [], iw_next = 1, iw_queue = [], iw_faults = []\<rparr>"

text \<open>\<open>inotify_add_watch(fd, path, mask)\<close>, given the paths that exist.\<close>

definition inotify_add_watch :: "string list \<Rightarrow> string \<Rightarrow> u32 \<Rightarrow> ino_inst \<Rightarrow> (errno + wd) \<times> ino_inst" where
  "inotify_add_watch fs p m k =
     (if PATH_MAX \<le> length p then (Inl ENAMETOOLONG, k)
      else if p \<notin> set fs then (Inl ENOENT, k)
      else case map_of (iw_watches k) p of
        Some w \<Rightarrow> (Inr w, k)
      | None \<Rightarrow> (if WD_LIMIT \<le> iw_next k then (Inl ENOSPC, k)
                else (Inr (iw_next k),
                      k\<lparr>iw_watches := (p, iw_next k) # iw_watches k, iw_next := iw_next k + 1\<rparr>)))"

text \<open>The records of the queue that fit a buffer of \<open>n\<close> bytes, from the front.\<close>

fun take_fitting :: "nat \<Rightarrow> inotify_event list \<Rightarrow> inotify_event list" where
  "take_fitting n [] = []"
| "take_fitting n (e # es) =
     (if length (encode_event e) \<le> n then e # take_fitting (n - length (encode_event e)) es
      else [])"

text \<open>\<open>read(inofd, buf, n)\<close> on the non-blocking instance.\<close>

definition inotify_read :: "nat \<Rightarrow> ino_inst \<Rightarrow> (errno + byte list) \<times> ino_inst" where
  "inotify_read n k =
     (case iw_faults k of
        e # es \<Rightarrow> (Inl e, k\<lparr>iw_faults := es\<rparr>)
      | [] \<Rightarrow> (if iw_queue k = [] then (Inl EAGAIN, k)
               else let evs = take_fitting n (iw_queue k)
                    in if evs = [] then (Inl EINVAL, k)
                       else (Inr (concat (map encode_event evs)),
                             k\<lparr>iw_queue := drop (length evs) (iw_queue k)\<rparr>)))"

text \<open>
  The records that successive reads of a buffer of \<open>n\<close> bytes return, one list per read,
  until the queue is empty (or its first record does not fit).
\<close>

function read_chunks :: "nat \<Rightarrow> inotify_event list \<Rightarrow> inotify_event list list" where
  "read_chunks n q =
     (let c = take_fitting n q in if c = [] then [] else c # read_chunks n (drop (length c) q))"
  by pat_completeness auto
termination read_chunks
proof (relation "measure (\<lambda>(n, q). length q)")
  fix n q c
  assume "c = take_fitting n q" and "c \<noteq> []"
  then show "((n, drop (length c) q), n, q) \<in> measure (\<lambda>(n, q). length q)"
    by (cases q) auto
qed simp

declare read_chunks.simps [simp del]

text \<open>A change on a watched file: the kernel queues a record for every watch of the path.\<close>

definition queue_event :: "string \<Rightarrow> u32 \<Rightarrow> u32 \<Rightarrow> string \<Rightarrow> ino_inst \<Rightarrow> ino_inst" where
  "queue_event p m cookie name k =
     (case map_of (iw_watches k) p of
        None \<Rightarrow> k
      | Some w \<Rightarrow> k\<lparr>iw_queue := iw_queue k @
                     [\<lparr>ie_wd = w, ie_mask = m, ie_cookie = cookie, ie_name = name\<rparr>]\<rparr>)"

subsection \<open>epoll\<close>

definition EPOLLIN :: u32 where "EPOLLIN = 0x001"
definition EPOLLERR :: u32 where "EPOLLERR = 0x008"
definition EPOLLHUP :: u32 where "EPOLLHUP = 0x010"
definition EPOLLET :: u32 where "EPOLLET = 0x80000000"

definition EPOLL_CTL_ADD :: int where "EPOLL_CTL_ADD = 1"
definition EPOLL_CTL_DEL :: int where "EPOLL_CTL_DEL = 2"

record epoll_inst =
  ep_interest :: "(fd \<times> u32) list"
  ep_ready :: "(fd \<times> u32) list"
  ep_faults :: "errno list"

definition ep_init :: epoll_inst where
  "ep_init = \<lparr>ep_interest = [], ep_ready = [], ep_faults = []\<rparr>"

text \<open>\<open>epoll_ctl(epfd, op, fd, &event)\<close> for the two operations the program uses.\<close>

definition epoll_ctl :: "int \<Rightarrow> fd \<Rightarrow> u32 \<Rightarrow> epoll_inst \<Rightarrow> (errno + unit) \<times> epoll_inst" where
  "epoll_ctl op fd events ep =
     (if op = EPOLL_CTL_ADD then
        (if fd \<in> fst ` set (ep_interest ep) then (Inl EEXIST, ep)
         else (Inr (), ep\<lparr>ep_interest := ep_interest ep @ [(fd, events)]\<rparr>))
      else if op = EPOLL_CTL_DEL then
        (if fd \<notin> fst ` set (ep_interest ep) then (Inl ENOENT, ep)
         else (Inr (), ep\<lparr>ep_interest := filter (\<lambda>x. fst x \<noteq> fd) (ep_interest ep),
                         ep_ready := filter (\<lambda>x. fst x \<noteq> fd) (ep_ready ep)\<rparr>))
      else (Inl EINVAL, ep))"

text \<open>\<open>epoll_wait(epfd, events, maxevents, -1)\<close>; \<open>None\<close> when it blocks.\<close>

definition epoll_wait :: "nat \<Rightarrow> epoll_inst \<Rightarrow> ((errno + (fd \<times> u32) list) \<times> epoll_inst) option" where
  "epoll_wait maxevents ep =
     (case ep_faults ep of
        e # es \<Rightarrow> Some (Inl e, ep\<lparr>ep_faults := es\<rparr>)
      | [] \<Rightarrow> (if maxevents = 0 then Some (Inl EINVAL, ep)
               else if ep_ready ep = [] then None
               else Some (Inr (take maxevents (ep_ready ep)),
                          ep\<lparr>ep_ready := drop maxevents (ep_ready ep)\<rparr>)))"

text \<open>New input on \<open>fd\<close>: an edge for every interest entry of \<open>fd\<close> that asks for \<open>EPOLLIN\<close>.\<close>

definition ep_signal :: "fd \<Rightarrow> epoll_inst \<Rightarrow> epoll_inst" where
  "ep_signal fd ep =
     (case map_of (ep_interest ep) fd of
        None \<Rightarrow> ep
      | Some evs \<Rightarrow> if evs AND EPOLLIN = 0 \<or> fd \<in> fst ` set (ep_ready ep) then ep
                   else ep\<lparr>ep_ready := ep_ready ep @ [(fd, EPOLLIN)]\<rparr>)"

subsection \<open>The kernel's own invariant on watches\<close>

text \<open>
  One watch per path, one path per descriptor, and every descriptor positive and below
  the next one to be handed out: descriptors are never reused.
\<close>

definition ino_ok :: "ino_inst \<Rightarrow> bool" where
  "ino_ok k \<longleftrightarrow> distinct (map fst (iw_watches k)) \<and> distinct (map snd (iw_watches k))
     \<and> (\<forall>w \<in> snd ` set (iw_watches k). 0 < w \<and> w < iw_next k) \<and> 0 < iw_next k
     \<and> iw_next k \<le> WD_LIMIT"

subsection \<open>Lemmas\<close>

lemma ino_ok_init: "ino_ok ino_init"
  by (simp add: ino_ok_def ino_init_def WD_LIMIT_def)

lemma inotify_add_watch_ok:
  "ino_ok k \<Longrightarrow> ino_ok (snd (inotify_add_watch ex p m k))"
proof -
  assume ok: "ino_ok k"
  have fresh: "iw_next k \<notin> snd ` set (iw_watches k)"
    using ok by (auto simp: ino_ok_def)
  show ?thesis
  proof (cases "map_of (iw_watches k) p")
    case None
    then have "p \<notin> fst ` set (iw_watches k)"
      by (simp add: map_of_eq_None_iff)
    with ok fresh None show ?thesis
      by (fastforce simp: ino_ok_def inotify_add_watch_def WD_LIMIT_def)
  qed (use ok in \<open>simp_all add: inotify_add_watch_def\<close>)
qed

lemma inotify_add_watch_mono:
  "set (iw_watches k) \<subseteq> set (iw_watches (snd (inotify_add_watch ex p m k)))"
  by (auto simp: inotify_add_watch_def split: option.splits)

lemma inotify_add_watch_Inr:
  assumes "ino_ok k" and "inotify_add_watch ex p m k = (Inr w, k')"
  shows "(p, w) \<in> set (iw_watches k')"
  using assms
  by (auto simp: inotify_add_watch_def split: if_splits option.splits dest: map_of_SomeD)

text \<open>While descriptors are left, whether the call succeeds depends on the path alone.\<close>

lemma inotify_add_watch_result:
  "iw_next k < WD_LIMIT \<Longrightarrow>
     isl (fst (inotify_add_watch ex p m k)) \<longleftrightarrow> PATH_MAX \<le> length p \<or> p \<notin> set ex"
  by (auto simp: inotify_add_watch_def split: option.splits)

lemma inotify_add_watch_next:
  "iw_next (snd (inotify_add_watch ex p m k)) \<le> iw_next k + 1"
  by (auto simp: inotify_add_watch_def split: option.splits)

lemma inotify_add_watch_Inl:
  "inotify_add_watch ex p m k = (Inl e, k') \<Longrightarrow> k' = k"
  by (auto simp: inotify_add_watch_def split: if_splits option.splits)

text \<open>Under the invariant, a path and a descriptor of the watch list determine each other.\<close>

lemma ino_ok_watch_inj:
  assumes "ino_ok k" and "(p, w) \<in> set (iw_watches k)" and "(q, v) \<in> set (iw_watches k)"
  shows "w = v \<longleftrightarrow> p = q"
proof -
  have "distinct (map fst (iw_watches k))" and "distinct (map snd (iw_watches k))"
    using assms(1) by (simp_all add: ino_ok_def)
  moreover have "(w, p) \<in> set (map prod.swap (iw_watches k))"
    and "(v, q) \<in> set (map prod.swap (iw_watches k))"
    using assms(2,3) by force+
  moreover have "map fst (map prod.swap (iw_watches k)) = map snd (iw_watches k)"
    by simp
  ultimately show ?thesis
    using assms(2,3) eq_key_imp_eq_value by metis
qed

lemma ino_ok_watch_pos: "ino_ok k \<Longrightarrow> (p, w) \<in> set (iw_watches k) \<Longrightarrow> 0 < w"
  by (force simp: ino_ok_def)

lemma ino_ok_watch_int32: "ino_ok k \<Longrightarrow> (p, w) \<in> set (iw_watches k) \<Longrightarrow> int32_ok w"
  by (force simp: ino_ok_def int32_ok_def WD_LIMIT_def)

lemma inotify_add_watch_queue [simp]:
  "iw_queue (snd (inotify_add_watch fs p m k)) = iw_queue k"
  "iw_faults (snd (inotify_add_watch fs p m k)) = iw_faults k"
  by (simp_all add: inotify_add_watch_def split: option.splits)

lemma take_fitting_prefix: "\<exists>rest. es = take_fitting n es @ rest"
  by (induction n es rule: take_fitting.induct) auto

lemma length_take_fitting: "length (take_fitting n es) \<le> length es"
  by (induction n es rule: take_fitting.induct) auto

text \<open>Every read that returns data takes at least one record off the queue; a failing
  read takes one error off the fault list or leaves the instance as it was.\<close>

lemma inotify_read_progress:
  assumes "inotify_read n k = (r, k')"
  shows "length (iw_faults k') + length (iw_queue k') \<le> length (iw_faults k) + length (iw_queue k)"
    and "r = Inl EINTR \<Longrightarrow> length (iw_faults k') < length (iw_faults k)"
    and "r = Inl EINTR \<Longrightarrow> iw_queue k' = iw_queue k"
    and "r = Inr bs \<Longrightarrow> iw_faults k' = iw_faults k \<and> length (iw_queue k') < length (iw_queue k)"
  using assms
  by (auto simp: inotify_read_def Let_def split: list.splits if_splits)

lemma inotify_read_measure_eintr:
  "inotify_read n k = (Inl EINTR, k') \<Longrightarrow>
     length (iw_faults k') + length (iw_queue k') < length (iw_faults k) + length (iw_queue k)"
  using inotify_read_progress(2,3) [of n k "Inl EINTR" k'] by simp

lemma length_concat_take_fitting:
  "length (concat (map encode_event (take_fitting n q))) \<le> n"
  by (induction n q rule: take_fitting.induct) auto

lemma take_fitting_first:
  "length (encode_event e) \<le> n \<Longrightarrow> \<exists>c. take_fitting n (e # q) = e # c"
  by simp

lemma read_chunks_Nil [simp]: "read_chunks n [] = []"
  by (simp add: read_chunks.simps)

lemma inotify_read_data:
  assumes "iw_faults k = []" and "iw_queue k = e # q" and "length (encode_event e) \<le> n"
  shows "inotify_read n k = (Inr (concat (map encode_event (take_fitting n (e # q)))),
            k\<lparr>iw_queue := drop (length (take_fitting n (e # q))) (e # q)\<rparr>)"
    and "read_chunks n (e # q)
           = take_fitting n (e # q) # read_chunks n (drop (length (take_fitting n (e # q))) (e # q))"
  using assms by (simp_all add: inotify_read_def read_chunks.simps [of n "e # q"] Let_def)

end
