(* ===== verification/Registry.thy ===== *)
theory Registry
  imports Kernel
begin

text \<open>
  The watch registry of \<open>src/main.c\<close>: the array \<open>struct inotify inotifies[len]\<close> with one
  slot per command-line path, filled by \<open>register_inotify_files\<close> (a slot whose
  \<open>inotify_add_watch\<close> failed keeps the zeroes of \<open>calloc\<close>: watch descriptor 0 and a
  NULL path); \<open>indexof\<close>, the linear search from a watch descriptor to a slot; and
  \<open>path_of\<close>, which builds the full path of an event into the stack buffer
  \<open>path[PATH_MAX]\<close>.  A NULL path is \<open>None\<close>; \<open>path_of\<close> returns \<open>None\<close> where the C code
  has undefined behaviour (it writes past \<open>path[PATH_MAX]\<close>, or reads \<open>inotify->path[-1]\<close>).
  The lemmas characterise \<open>indexof\<close> against the first matching slot, compare \<open>path_of\<close>
  with the path resolution the specification asks for, and show what the registry holds
  after start-up: one slot per path, holes exactly where the kernel refused a path, and
  watch descriptors that are equal exactly when the paths are.
\<close>

subsection \<open>The registry\<close>

text \<open>\<open>struct inotify { int watchfd; const char *path; }\<close>\<close>

record inotify =
  watchfd :: wd
  path :: "string option"

text \<open>A slot as \<open>calloc\<close> leaves it.\<close>

definition no_watch :: inotify where
  "no_watch = \<lparr>watchfd = 0, path = None\<rparr>"

text \<open>\<open>struct inotify_context { int inofd; struct inotify *inotifies; }\<close>\<close>

record inotify_context =
  ctx_inofd :: fd
  ctx_inotifies :: "inotify list"

subsection \<open>indexof\<close>

text \<open>The loop \<open>for (i = 0; i < len; i++) if (inotifies[i].watchfd == watchfd) return i;\<close>\<close>

fun indexof_from :: "inotify list \<Rightarrow> wd \<Rightarrow> nat \<Rightarrow> int" where
  "indexof_from [] w i = -1"
| "indexof_from (x # xs) w i = (if watchfd x = w then int i else indexof_from xs w (Suc i))"

definition indexof :: "inotify list \<Rightarrow> wd \<Rightarrow> int" where
  "indexof inotifies w = indexof_from inotifies w 0"

text \<open>The lookup of the specification (section 4.2): the first slot with the descriptor.\<close>

definition lookup_slot :: "inotify list \<Rightarrow> wd \<Rightarrow> nat option" where
  "lookup_slot inotifies w = find (\<lambda>j. watchfd (inotifies ! j) = w) [0..<length inotifies]"

subsection \<open>path_of\<close>

text \<open>The result must fit \<open>path[PATH_MAX]\<close> with its NUL; otherwise \<open>strcpy\<close> or
  \<open>strcat\<close> writes past the buffer.\<close>

definition fits_path :: "string \<Rightarrow> string option" where
  "fits_path r = (if length r < PATH_MAX then Some r else None)"

definition path_of :: "string \<Rightarrow> string \<Rightarrow> string option" where
  "path_of p name =
     (if strstr_found p name then fits_path p
      else if p = [] then None
      else fits_path ((if last p \<noteq> CHR ''/'' then p @ ''/'' else p) @ name))"

text \<open>
  The resolution the specification asks for (section 4.2): the watched path itself for an
  event without a child name, otherwise the watched path and the name joined by exactly
  one separator.
\<close>

definition resolve_full_path :: "string \<Rightarrow> string \<Rightarrow> string" where
  "resolve_full_path p name =
     (if name = [] then p
      else if p \<noteq> [] \<and> last p = CHR ''/'' then p @ name else p @ ''/'' @ name)"

subsection \<open>register_inotify_files\<close>

definition add_watch_error :: "string \<Rightarrow> errno \<Rightarrow> string" where
  "add_watch_error f e = ''inotify_add_watch('' @ [CHR 0x27] @ f @ [CHR 0x27] @ '') error: ''
     @ strerror e"

text \<open>
  The loop over the paths: slot \<open>i\<close> gets the watch of \<open>files[i]\<close>, or stays empty and a
  line goes to stderr.  \<open>ex\<close> are the paths that exist.
\<close>

fun register_loop :: "string list \<Rightarrow> string list \<Rightarrow> nat \<Rightarrow> inotify list \<Rightarrow> ino_inst
    \<Rightarrow> string list \<Rightarrow> inotify list \<times> ino_inst \<times> string list" where
  "register_loop ex [] i tbl k errs = (tbl, k, errs)"
| "register_loop ex (f # files) i tbl k errs =
     (case inotify_add_watch ex f default_events k of
        (Inl e, k') \<Rightarrow> register_loop ex files (Suc i) tbl k' (errs @ [add_watch_error f e])
      | (Inr w, k') \<Rightarrow> register_loop ex files (Suc i) (tbl[i := \<lparr>watchfd = w, path = Some f\<rparr>]) k' errs)"

text \<open>
  \<open>register_inotify_files(files, len)\<close>: \<open>inotify_init1(IN_NONBLOCK)\<close> (its result,
  a descriptor or an error, comes from the environment; an error is fatal), the
  \<open>calloc\<close>ed array, the loop.  The result is the context, the inotify instance and the
  lines written to stderr.
\<close>

definition register_inotify_files :: "errno + fd \<Rightarrow> string list \<Rightarrow> string list
    \<Rightarrow> failure + inotify_context \<times> ino_inst \<times> string list" where
  "register_inotify_files init ex files =
     (case init of
        Inl e \<Rightarrow> Inl (Fatal ''inotify_init1'' e)
      | Inr inofd \<Rightarrow>
          (let (tbl, k, errs) = register_loop ex files 0 (replicate (length files) no_watch) ino_init []
           in Inr (\<lparr>ctx_inofd = inofd, ctx_inotifies = tbl\<rparr>, k, errs)))"

text \<open>Which paths the kernel accepts, and the error it gives for the others.\<close>

definition registrable :: "string list \<Rightarrow> string \<Rightarrow> bool" where
  "registrable ex f \<longleftrightarrow> length f < PATH_MAX \<and> f \<in> set ex"

definition watch_errno :: "string \<Rightarrow> errno" where
  "watch_errno f = (if PATH_MAX \<le> length f then ENAMETOOLONG else ENOENT)"

subsection \<open>The registry invariant\<close>

text \<open>
  A slot is either empty (as \<open>calloc\<close> left it) or holds a path together with the
  descriptor the kernel's watch list has for it.
\<close>

definition slot_ok :: "ino_inst \<Rightarrow> inotify \<Rightarrow> bool" where
  "slot_ok k e \<longleftrightarrow> e = no_watch \<or> (\<exists>p. path e = Some p \<and> (p, watchfd e) \<in> set (iw_watches k))"

definition registry_ok :: "ino_inst \<Rightarrow> inotify list \<Rightarrow> bool" where
  "registry_ok k tbl \<longleftrightarrow> ino_ok k \<and> (\<forall>e \<in> set tbl. slot_ok k e)"

subsection \<open>Lemmas on indexof\<close>

lemma find_map_fun: "find P (map f xs) = map_option f (find (P \<circ> f) xs)"
  by (induction xs) simp_all

lemma find_upt_Suc:
  "find P [0..<Suc n] = (if P 0 then Some 0 else map_option Suc (find (P \<circ> Suc) [0..<n]))"
proof -
  have "[0..<Suc n] = 0 # map Suc [0..<n]"
    by (simp add: map_Suc_upt upt_conv_Cons del: upt_Suc)
  then show ?thesis by (simp add: find_map_fun)
qed

lemma indexof_from_find:
  "indexof_from xs w i
     = (case find (\<lambda>j. watchfd (xs ! j) = w) [0..<length xs] of None \<Rightarrow> -1 | Some j \<Rightarrow> int (i + j))"
proof (induction xs arbitrary: i)
  case Nil
  then show ?case by simp
next
  case (Cons x xs)
  have "(\<lambda>j. watchfd ((x # xs) ! j) = w) \<circ> Suc = (\<lambda>j. watchfd (xs ! j) = w)"
    by (simp add: comp_def)
  then show ?case
    using Cons.IH [of "Suc i"]
    by (simp add: find_upt_Suc del: upt_Suc split: option.splits)
qed

lemma indexof_lookup_slot:
  "indexof xs w = (case lookup_slot xs w of None \<Rightarrow> -1 | Some j \<Rightarrow> int j)"
  by (simp add: indexof_def lookup_slot_def indexof_from_find split: option.splits)

lemma lookup_slot_None: "lookup_slot xs w = None \<longleftrightarrow> w \<notin> watchfd ` set xs"
  by (force simp: lookup_slot_def find_None_iff in_set_conv_nth)

lemma lookup_slot_Some:
  "lookup_slot xs w = Some j \<longleftrightarrow>
     j < length xs \<and> watchfd (xs ! j) = w \<and> (\<forall>i < j. watchfd (xs ! i) \<noteq> w)"
  by (auto simp: lookup_slot_def find_Some_iff)

subsection \<open>Lemmas on path_of\<close>

lemma fits_path_Some [simp]: "length r < PATH_MAX \<Longrightarrow> fits_path r = Some r"
  by (simp add: fits_path_def)

lemma path_of_self: "length p < PATH_MAX \<Longrightarrow> path_of p [] = Some p"
  by (simp add: path_of_def)

lemma path_of_join:
  assumes "\<not> strstr_found p name" and "p \<noteq> []"
  shows "path_of p name = fits_path (resolve_full_path p name)"
proof -
  have "name \<noteq> []" using assms(1) by auto
  then show ?thesis
    using assms by (simp add: path_of_def resolve_full_path_def)
qed

lemma strstr_found_set: "strstr_found hay needle \<Longrightarrow> set needle \<subseteq> set hay"
  by (auto simp: strstr_found_def sublist_def)

lemma not_strstr_found_longer: "length hay < length needle \<Longrightarrow> \<not> strstr_found hay needle"
  using strstr_found_length by fastforce

subsection \<open>Lemmas on the start-up loop\<close>

lemma inotify_add_watch_registrable:
  "iw_next k < WD_LIMIT \<Longrightarrow> isl (fst (inotify_add_watch ex f m k)) \<longleftrightarrow> \<not> registrable ex f"
  by (auto simp: inotify_add_watch_result registrable_def)

lemma inotify_add_watch_errno:
  "iw_next k < WD_LIMIT \<Longrightarrow> inotify_add_watch ex f m k = (Inl e, k') \<Longrightarrow> e = watch_errno f"
  by (auto simp: inotify_add_watch_def watch_errno_def split: if_splits option.splits)

lemma register_loop_length:
  "register_loop ex files i tbl k errs = (tbl', k', errs') \<Longrightarrow> length tbl' = length tbl"
  by (induction ex files i tbl k errs rule: register_loop.induct)
     (auto split: prod.splits sum.splits)

lemma register_loop_errs:
  "register_loop ex files i tbl k errs = (tbl', k', errs') \<Longrightarrow>
     iw_next k + int (length files) \<le> WD_LIMIT \<Longrightarrow>
     errs' = errs @ map (\<lambda>f. add_watch_error f (watch_errno f)) (filter (\<lambda>f. \<not> registrable ex f) files)"
proof (induction ex files i tbl k errs rule: register_loop.induct)
  case (2 ex f files i tbl k errs)
  have lim: "iw_next k < WD_LIMIT" using "2.prems"(2) by simp
  show ?case
  proof (cases "inotify_add_watch ex f default_events k")
    case (Pair r k1)
    have lim1: "iw_next k1 + int (length files) \<le> WD_LIMIT"
      using "2.prems"(2) inotify_add_watch_next [of ex f default_events k] Pair by simp
    show ?thesis
    proof (cases r)
      case (Inl e)
      then have "\<not> registrable ex f" and "e = watch_errno f"
        using Pair inotify_add_watch_registrable [OF lim, of ex f default_events]
          inotify_add_watch_errno [OF lim, of ex f default_events e k1] by simp_all
      with "2.IH"(1) [OF Pair [symmetric] Inl] "2.prems" Pair Inl lim1 show ?thesis by simp
    next
      case (Inr w)
      then have "registrable ex f"
        using Pair inotify_add_watch_registrable [OF lim, of ex f default_events] by simp
      with "2.IH"(2) [OF Pair [symmetric] Inr] "2.prems" Pair Inr lim1 show ?thesis by simp
    qed
  qed
qed simp

lemma slot_ok_mono:
  "slot_ok k e \<Longrightarrow> set (iw_watches k) \<subseteq> set (iw_watches k') \<Longrightarrow> slot_ok k' e"
  by (auto simp: slot_ok_def)

lemma register_loop_ok:
  "register_loop ex files i tbl k errs = (tbl', k', errs') \<Longrightarrow> registry_ok k tbl \<Longrightarrow>
     registry_ok k' tbl' \<and> set (iw_watches k) \<subseteq> set (iw_watches k')"
proof (induction ex files i tbl k errs rule: register_loop.induct)
  case (2 ex f files i tbl k errs)
  obtain r k1 where add: "inotify_add_watch ex f default_events k = (r, k1)" by fastforce
  have ok1: "ino_ok k1" and mono1: "set (iw_watches k) \<subseteq> set (iw_watches k1)"
    using inotify_add_watch_ok [of k ex f default_events] inotify_add_watch_mono [of k ex f default_events]
      "2.prems"(2) add by (simp_all add: registry_ok_def)
  have slots1: "\<forall>e \<in> set tbl. slot_ok k1 e"
    using "2.prems"(2) mono1 slot_ok_mono by (fastforce simp: registry_ok_def)
  show ?case
  proof (cases r)
    case (Inl e)
    have "registry_ok k1 tbl" using ok1 slots1 by (simp add: registry_ok_def)
    with "2.IH"(1) [OF add [symmetric] Inl] "2.prems"(1) add Inl mono1 show ?thesis by auto
  next
    case (Inr w)
    have "ino_ok k" using "2.prems"(2) by (simp add: registry_ok_def)
    then have "(f, w) \<in> set (iw_watches k1)"
      using add Inr inotify_add_watch_Inr [of k ex f default_events w k1] by simp
    then have "slot_ok k1 \<lparr>watchfd = w, path = Some f\<rparr>" by (simp add: slot_ok_def)
    then have "registry_ok k1 (tbl[i := \<lparr>watchfd = w, path = Some f\<rparr>])"
      using ok1 slots1 set_update_subset_insert by (fastforce simp: registry_ok_def)
    with "2.IH"(2) [OF add [symmetric] Inr] "2.prems"(1) add Inr mono1 show ?thesis by auto
  qed
qed simp

lemma register_loop_slots:
  "register_loop ex files i tbl k errs = (tbl', k', errs') \<Longrightarrow> i + length files \<le> length tbl \<Longrightarrow>
     iw_next k + int (length files) \<le> WD_LIMIT \<Longrightarrow>
     (\<forall>j. j < i \<or> i + length files \<le> j \<longrightarrow> tbl' ! j = tbl ! j)
     \<and> (\<forall>j < length files. if registrable ex (files ! j) then path (tbl' ! (i + j)) = Some (files ! j)
                             else tbl' ! (i + j) = tbl ! (i + j))"
proof (induction ex files i tbl k errs arbitrary: tbl' rule: register_loop.induct)
  case (2 ex f files i tbl k errs)
  obtain r k1 where add: "inotify_add_watch ex f default_events k = (r, k1)" by fastforce
  have lim: "iw_next k < WD_LIMIT" using "2.prems"(3) by simp
  have lim1: "iw_next k1 + int (length files) \<le> WD_LIMIT"
    using "2.prems"(3) inotify_add_watch_next [of ex f default_events k] add by simp
  show ?case
  proof (cases r)
    case (Inl e)
    then have nreg: "\<not> registrable ex f"
      using add inotify_add_watch_registrable [OF lim, of ex f default_events] by simp
    have IH: "(\<forall>j. j < Suc i \<or> Suc i + length files \<le> j \<longrightarrow> tbl' ! j = tbl ! j)
       \<and> (\<forall>j < length files. if registrable ex (files ! j) then path (tbl' ! (Suc i + j)) = Some (files ! j)
                             else tbl' ! (Suc i + j) = tbl ! (Suc i + j))"
      by (rule "2.IH"(1) [OF add [symmetric] Inl]) (use "2.prems" add Inl lim1 in simp_all)
    show ?thesis
    proof (intro conjI allI impI)
      fix j assume "j < i \<or> i + length (f # files) \<le> j"
      then show "tbl' ! j = tbl ! j" using IH by auto
    next
      fix j assume j: "j < length (f # files)"
      show "if registrable ex ((f # files) ! j) then path (tbl' ! (i + j)) = Some ((f # files) ! j)
            else tbl' ! (i + j) = tbl ! (i + j)"
      proof (cases j)
        case 0
        then show ?thesis using IH nreg by auto
      next
        case (Suc j')
        then show ?thesis using IH j by (auto simp del: nth_Cons_Suc)
      qed
    qed
  next
    case (Inr w)
    then have reg: "registrable ex f"
      using add inotify_add_watch_registrable [OF lim, of ex f default_events] by simp
    let ?tbl = "tbl[i := \<lparr>watchfd = w, path = Some f\<rparr>]"
    have IH: "(\<forall>j. j < Suc i \<or> Suc i + length files \<le> j \<longrightarrow> tbl' ! j = ?tbl ! j)
       \<and> (\<forall>j < length files. if registrable ex (files ! j) then path (tbl' ! (Suc i + j)) = Some (files ! j)
                             else tbl' ! (Suc i + j) = ?tbl ! (Suc i + j))"
      by (rule "2.IH"(2) [OF add [symmetric] Inr]) (use "2.prems" add Inr lim1 in simp_all)
    have i: "i < length tbl" using "2.prems"(2) by simp
    show ?thesis
    proof (intro conjI allI impI)
      fix j assume "j < i \<or> i + length (f # files) \<le> j"
      then show "tbl' ! j = tbl ! j" using IH by auto
    next
      fix j assume j: "j < length (f # files)"
      show "if registrable ex ((f # files) ! j) then path (tbl' ! (i + j)) = Some ((f # files) ! j)
            else tbl' ! (i + j) = tbl ! (i + j)"
      proof (cases j)
        case 0
        then show ?thesis using IH reg i by auto
      next
        case (Suc j')
        then show ?thesis using IH j by (auto simp del: nth_Cons_Suc)
      qed
    qed
  qed
qed simp

lemma slot_path_watch:
  "slot_ok k e \<Longrightarrow> path e = Some p \<Longrightarrow> (p, watchfd e) \<in> set (iw_watches k)"
  by (auto simp: slot_ok_def no_watch_def)

lemma register_inotify_files_Inr:
  "register_inotify_files (Inr fd) ex files = Inr (ctx, k, errs) \<Longrightarrow>
     ctx_inofd ctx = fd
     \<and> register_loop ex files 0 (replicate (length files) no_watch) ino_init [] = (ctx_inotifies ctx, k, errs)"
  by (auto simp: register_inotify_files_def split: prod.splits)

lemma not_strstr_found_chars: "\<not> set name \<subseteq> set hay \<Longrightarrow> \<not> strstr_found hay name"
  using strstr_found_set by blast

lemmas registry_eval = registry_ok_def ino_ok_def slot_ok_def WD_LIMIT_def

lemma sublist_suffix_name: "strstr_found (p @ name) name"
  unfolding strstr_found_def sublist_def by (rule exI [of _ p], rule exI [of _ "[]"]) simp

subsection \<open>Properties of the registry\<close>

text \<open>
  C19.  \<open>indexof\<close> is the linear lookup of the specification: it returns \<open>-1\<close> exactly
  when no slot holds the descriptor, and otherwise the first slot that holds it.
\<close>

theorem indexof_first_match:
  "(indexof tbl w = -1 \<longleftrightarrow> w \<notin> watchfd ` set tbl)
   \<and> (\<forall>j. indexof tbl w = int j \<longleftrightarrow>
          j < length tbl \<and> watchfd (tbl ! j) = w \<and> (\<forall>i < j. watchfd (tbl ! i) \<noteq> w))"
proof (cases "lookup_slot tbl w")
  case None
  then show ?thesis
    using lookup_slot_None [of tbl w] lookup_slot_Some [of tbl w]
    by (auto simp: indexof_lookup_slot)
next
  case (Some k)
  then have "w \<in> watchfd ` set tbl" using lookup_slot_None [of tbl w] by auto
  moreover have "(j < length tbl \<and> watchfd (tbl ! j) = w \<and> (\<forall>i < j. watchfd (tbl ! i) \<noteq> w)) \<longleftrightarrow> j = k"
    for j using Some lookup_slot_Some [of tbl w j] by auto
  ultimately show ?thesis
    using Some by (auto simp: indexof_lookup_slot)
qed

theorem indexof_first_match_witness:
  "indexof [\<lparr>watchfd = 0, path = None\<rparr>, \<lparr>watchfd = 1, path = Some ''/a''\<rparr>,
            \<lparr>watchfd = 1, path = Some ''/a''\<rparr>] 1 = 1"
proof -
  let ?T = "[\<lparr>watchfd = 0, path = None\<rparr>, \<lparr>watchfd = 1, path = Some ''/a''\<rparr>,
            \<lparr>watchfd = 1, path = Some ''/a''\<rparr>]"
  have "indexof ?T 1 = int 1 \<longleftrightarrow>
          1 < length ?T \<and> watchfd (?T ! 1) = 1 \<and> (\<forall>i < 1. watchfd (?T ! i) \<noteq> 1)"
    using indexof_first_match [of ?T 1] by blast
  then show ?thesis by simp
qed

text \<open>
  C20.  \<open>path_of\<close> implements the specification's \<open>resolve_full_path\<close> whenever the
  record has no name or its name does not occur in the watched path, the watched path
  is not empty and the result fits \<open>path[PATH_MAX]\<close>.
\<close>

theorem path_of_resolves:
  "p \<noteq> [] \<Longrightarrow> name = [] \<or> \<not> strstr_found p name \<Longrightarrow> length (resolve_full_path p name) < PATH_MAX \<Longrightarrow>
     path_of p name = Some (resolve_full_path p name)"
  by (auto simp: path_of_join resolve_full_path_def path_of_self)

theorem path_of_resolves_witness: "path_of ''/srv'' ''data.log'' = Some ''/srv/data.log''"
proof -
  have "\<not> strstr_found ''/srv'' ''data.log''" by (rule not_strstr_found_longer) simp
  then show ?thesis
    using path_of_resolves [of "''/srv''" "''data.log''"]
    by (simp add: resolve_full_path_def PATH_MAX_def)
qed


text \<open>
  C22.  When the name of a record occurs anywhere inside the watched path, \<open>path_of\<close>
  returns the watched path itself instead of the child's path: the substring test of
  the source misclassifies the event as one about the watched path.
\<close>

theorem path_of_substring:
  "p \<noteq> [] \<Longrightarrow> name \<noteq> [] \<Longrightarrow> strstr_found p name \<Longrightarrow> length p < PATH_MAX \<Longrightarrow>
     path_of p name = Some p \<and> resolve_full_path p name \<noteq> p"
  by (auto simp: path_of_def resolve_full_path_def)

theorem path_of_substring_witness:
  "path_of ''/tmp/a'' ''a'' = Some ''/tmp/a'' \<and> resolve_full_path ''/tmp/a'' ''a'' = ''/tmp/a/a''"
  using path_of_substring [of "''/tmp/a''" "''a''"] sublist_suffix_name [of "''/tmp/''" "''a''"]
  by (simp add: resolve_full_path_def PATH_MAX_def)

text \<open>
  C23.  When the joined path does not fit \<open>path[PATH_MAX]\<close>, \<open>path_of\<close> has no result:
  \<open>strcat\<close> writes past the end of the buffer.
\<close>

theorem path_of_overflow:
  "p \<noteq> [] \<Longrightarrow> \<not> strstr_found p name \<Longrightarrow> PATH_MAX \<le> length (resolve_full_path p name) \<Longrightarrow>
     path_of p name = None"
  by (simp add: path_of_join fits_path_def)

theorem path_of_overflow_witness:
  "path_of (replicate 4000 CHR ''a'') (replicate 200 CHR ''b'') = None"
proof -
  have "\<not> strstr_found (replicate 4000 CHR ''a'') (replicate 200 CHR ''b'')"
    by (rule not_strstr_found_chars) simp
  moreover have "PATH_MAX \<le> length (resolve_full_path (replicate 4000 CHR ''a'') (replicate 200 CHR ''b''))"
    by (simp add: resolve_full_path_def PATH_MAX_def)
  ultimately show ?thesis
    using path_of_overflow [of "replicate 4000 CHR ''a''" "replicate 200 CHR ''b''"] by simp
qed

text \<open>
  C24.  Start-up registration: the registry has one slot per input path; the slot of a
  path the kernel accepts holds that path and the descriptor of its watch, the slot of
  any other path stays empty; one error line goes to stderr for each rejected path, in
  order, and the other registrations are unaffected.
\<close>

theorem register_slots:
  assumes reg: "register_inotify_files (Inr fd) ex files = Inr (ctx, k, errs)"
    and lim: "1 + int (length files) \<le> WD_LIMIT"
  shows "ctx_inofd ctx = fd \<and> length (ctx_inotifies ctx) = length files
    \<and> (\<forall>j < length files. if registrable ex (files ! j)
         then path (ctx_inotifies ctx ! j) = Some (files ! j)
              \<and> (files ! j, watchfd (ctx_inotifies ctx ! j)) \<in> set (iw_watches k)
         else ctx_inotifies ctx ! j = no_watch)
    \<and> errs = map (\<lambda>f. add_watch_error f (watch_errno f)) (filter (\<lambda>f. \<not> registrable ex f) files)"
proof -
  let ?tbl = "ctx_inotifies ctx"
  have fd: "ctx_inofd ctx = fd"
    and loop: "register_loop ex files 0 (replicate (length files) no_watch) ino_init [] = (?tbl, k, errs)"
    using register_inotify_files_Inr [OF reg] by simp_all
  have lim0: "iw_next ino_init + int (length files) \<le> WD_LIMIT"
    using lim by (simp add: ino_init_def)
  have slots: "\<forall>j < length files. if registrable ex (files ! j) then path (?tbl ! j) = Some (files ! j)
                 else ?tbl ! j = replicate (length files) no_watch ! j"
    using register_loop_slots [OF loop _ lim0] by (auto simp: nth_replicate)
  have "registry_ok ino_init (replicate (length files) no_watch)"
    by (simp add: registry_ok_def ino_ok_init slot_ok_def)
  then have ok: "registry_ok k ?tbl" using register_loop_ok [OF loop] by simp
  have len: "length ?tbl = length files" using register_loop_length [OF loop] by simp
  have "(files ! j, watchfd (?tbl ! j)) \<in> set (iw_watches k)"
    if "j < length files" and "path (?tbl ! j) = Some (files ! j)" for j
    using ok that len by (intro slot_path_watch [of k]) (auto simp: registry_ok_def)
  then show ?thesis
    using fd len slots register_loop_errs [OF loop lim0] by simp
qed

theorem register_slots_witness:
  "register_inotify_files (Inr 3) [''/tmp/a'', ''/tmp/b''] [''/tmp/a'', ''/nope'', ''/tmp/b'']
     = Inr (\<lparr>ctx_inofd = 3, ctx_inotifies = [\<lparr>watchfd = 1, path = Some ''/tmp/a''\<rparr>, no_watch,
                                                \<lparr>watchfd = 2, path = Some ''/tmp/b''\<rparr>]\<rparr>,
            \<lparr>iw_watches = [(''/tmp/b'', 2), (''/tmp/a'', 1)], iw_next = 3, iw_queue = [], iw_faults = []\<rparr>,
            [''inotify_add_watch('' @ [CHR 0x27] @ ''/nope'' @ [CHR 0x27] @ '') error: No such file or directory''])
   \<and> path (ctx_inotifies \<lparr>ctx_inofd = 3, ctx_inotifies = [\<lparr>watchfd = 1, path = Some ''/tmp/a''\<rparr>, no_watch,
                                                \<lparr>watchfd = 2, path = Some ''/tmp/b''\<rparr>]\<rparr> ! 2) = Some ''/tmp/b''"
proof -
  let ?ctx = "\<lparr>ctx_inofd = 3, ctx_inotifies = [\<lparr>watchfd = 1, path = Some ''/tmp/a''\<rparr>, no_watch,
                                                \<lparr>watchfd = 2, path = Some ''/tmp/b''\<rparr>]\<rparr>"
  let ?k = "\<lparr>iw_watches = [(''/tmp/b'', 2), (''/tmp/a'', 1)], iw_next = 3, iw_queue = [], iw_faults = []\<rparr>"
  let ?errs = "[''inotify_add_watch('' @ [CHR 0x27] @ ''/nope'' @ [CHR 0x27] @ '') error: No such file or directory'']"
  have reg: "register_inotify_files (Inr 3) [''/tmp/a'', ''/tmp/b''] [''/tmp/a'', ''/nope'', ''/tmp/b'']
     = Inr (?ctx, ?k, ?errs)"
    by (simp add: register_inotify_files_def inotify_add_watch_def ino_init_def no_watch_def
        PATH_MAX_def WD_LIMIT_def add_watch_error_def strerror_def)
  have "registrable [''/tmp/a'', ''/tmp/b''] ([''/tmp/a'', ''/nope'', ''/tmp/b''] ! 2)"
    by (simp add: registrable_def PATH_MAX_def)
  then show ?thesis
    using reg register_slots [OF reg] by (simp add: WD_LIMIT_def)
qed



end
