(* ===== verification/Dispatch.thy ===== *)
theory Dispatch
  imports Describe Registry
begin

text \<open>
  The handling of one read in \<open>read_inotify_events\<close> of \<open>src/main.c\<close> (the body of
  the loop after a successful \<open>read\<close>), and the process state it works on.  The state
  holds what the loop reads and writes: the inotify descriptor, the registry, the static
  read buffer \<open>buf\<close> (which keeps its old bytes beyond what the last \<open>read\<close> wrote), the
  lines written to stdout and stderr, the inotify instance and the paths that exist.
  One call looks the watch descriptor of the record at the start of the buffer up in the
  registry, skips it silently when no slot has it, otherwise prints one line with the
  full path, the description and the raw name, and on \<open>IN_CREATE\<close> asks the kernel for a
  watch on the new path (the result is ignored and the registry is not extended).
  The lemmas show that a call changes neither the pending records nor the registry,
  that it keeps the kernel's invariant, and that it cannot crash under the registry
  invariant when the record names a real watch and the paths leave room for a name.
\<close>

unbundle bit_operations_syntax

subsection \<open>Process state\<close>

record sys =
  inofd :: fd
  inotifies :: "inotify list"
  rbuf :: "byte list"
  stdout :: "string list"
  stderr :: "string list"
  ino :: ino_inst
  fs :: "string list"

subsection \<open>One event\<close>

text \<open>\<open>printf("`%s`: %s(event.name=`%s`)\n", path_of(...), inspect_inotify_event(event), event->name)\<close>\<close>

definition event_line :: "string \<Rightarrow> string \<Rightarrow> string \<Rightarrow> string" where
  "event_line full desc name =
     ''`'' @ full @ ''`: '' @ desc @ ''(event.name=`'' @ name @ ''`)''"

text \<open>
  The body of the loop after \<open>read\<close> returned data.  \<open>indexof(inotifies, len, event->wd)\<close>
  with \<open>-1\<close> means \<open>continue\<close>; a slot with a NULL path makes \<open>strstr\<close> dereference
  NULL; \<open>path_of\<close> returning \<open>None\<close> is a write past \<open>path[PATH_MAX]\<close>.  The arguments
  of \<open>printf\<close> are evaluated before it prints, so the \<open>IN_MOVE\<close> line of
  \<open>inspect_inotify_event\<close> comes first.
\<close>

definition handle_record :: "inotify_event \<Rightarrow> sys \<Rightarrow> failure + sys" where
  "handle_record ev s =
     (let idx = indexof (inotifies s) (ie_wd ev)
      in if idx = -1 then Inr s
         else case path (inotifies s ! nat idx) of
           None \<Rightarrow> Inl (Crash ''strstr(NULL, name)'')
         | Some p \<Rightarrow>
             (case path_of p (ie_name ev) of
                None \<Rightarrow> Inl (Crash ''path_of: write past path[PATH_MAX]'')
              | Some full \<Rightarrow>
                  (let (desc, lines) = inspect_inotify_event ev;
                       s' = s\<lparr>stdout := stdout s @ lines @ [event_line full desc (ie_name ev)]\<rparr>
                   in if ie_mask ev AND IN_CREATE \<noteq> 0
                      then Inr (s'\<lparr>ino := snd (inotify_add_watch (fs s) full default_events (ino s))\<rparr>)
                      else Inr s')))"

text \<open>\<open>event = (struct inotify_event * )buf\<close>: the record is read through the cast of the
  static buffer.\<close>

definition handle_event :: "sys \<Rightarrow> failure + sys" where
  "handle_event s = handle_record (buf_event (rbuf s)) s"

text \<open>
  What one record prints, stated with the lookup of the specification: nothing for a
  descriptor that no slot has, otherwise the \<open>IN_MOVE\<close> line if any and the event line.
\<close>

definition event_output :: "inotify list \<Rightarrow> inotify_event \<Rightarrow> string list" where
  "event_output tbl ev =
     (case lookup_slot tbl (ie_wd ev) of
        None \<Rightarrow> []
      | Some j \<Rightarrow> (case path (tbl ! j) of
          None \<Rightarrow> []
        | Some p \<Rightarrow> (case path_of p (ie_name ev) of
            None \<Rightarrow> []
          | Some full \<Rightarrow> snd (inspect_inotify_event ev)
                           @ [event_line full (fst (inspect_inotify_event ev)) (ie_name ev)])))"

subsection \<open>Invariants of the process state\<close>

text \<open>Every path in the registry leaves room in \<open>path[PATH_MAX]\<close> for a separator, a name
  of \<open>NAME_MAX\<close> bytes and the NUL.\<close>

definition short_paths :: "inotify list \<Rightarrow> bool" where
  "short_paths tbl \<longleftrightarrow> (\<forall>e \<in> set tbl. \<forall>p. path e = Some p \<longrightarrow> p \<noteq> [] \<and> length p + NAME_MAX + 1 < PATH_MAX)"

text \<open>The read buffer has its declared size and ends in a NUL, so \<open>event->name\<close> stays
  inside it.\<close>

definition rbuf_ok :: "byte list \<Rightarrow> bool" where
  "rbuf_ok buf \<longleftrightarrow> length buf = READ_BUF \<and> last buf = 0"

subsection \<open>Lemmas\<close>

lemma handle_record_frame:
  assumes "handle_record ev s = Inr s'"
  shows "iw_queue (ino s') = iw_queue (ino s)" and "iw_faults (ino s') = iw_faults (ino s)"
    and "inotifies s' = inotifies s" and "inofd s' = inofd s" and "rbuf s' = rbuf s"
    and "fs s' = fs s" and "stderr s' = stderr s"
  using assms
  by (auto simp: handle_record_def Let_def split: if_splits option.splits prod.splits)

lemma handle_record_stdout:
  assumes "handle_record ev s = Inr s'"
  shows "stdout s' = stdout s @ event_output (inotifies s) ev"
  using assms
  by (auto simp: handle_record_def event_output_def indexof_lookup_slot Let_def
           split: if_splits option.splits prod.splits)

lemma handle_record_ino:
  assumes "handle_record ev s = Inr s'"
  shows "ino s' = ino s \<or> (\<exists>p. ino s' = snd (inotify_add_watch (fs s) p default_events (ino s)))"
  using assms
  by (auto simp: handle_record_def Let_def split: if_splits option.splits prod.splits)

lemmas handle_event_frame = handle_record_frame [of "buf_event (rbuf s)" s, folded handle_event_def] for s
lemmas handle_event_stdout = handle_record_stdout [of "buf_event (rbuf s)" s, folded handle_event_def] for s
lemmas handle_event_ino = handle_record_ino [of "buf_event (rbuf s)" s, folded handle_event_def] for s

lemma handle_record_registry_ok:
  assumes "handle_record ev s = Inr s'" and "registry_ok (ino s) (inotifies s)"
  shows "registry_ok (ino s') (inotifies s')"
proof -
  have "ino s' = ino s \<or> (\<exists>p. ino s' = snd (inotify_add_watch (fs s) p default_events (ino s)))"
    using assms(1) by (rule handle_record_ino)
  moreover have "inotifies s' = inotifies s" using assms(1) by (rule handle_record_frame)
  ultimately show ?thesis
    using assms(2) inotify_add_watch_ok inotify_add_watch_mono slot_ok_mono
    by (fastforce simp: registry_ok_def)
qed

lemmas handle_event_registry_ok =
  handle_record_registry_ok [of "buf_event (rbuf s)" s, folded handle_event_def] for s

lemma cstr_rbuf_length:
  assumes "rbuf_ok buf"
  shows "length (cstr (drop EVENT_HDR buf)) \<le> NAME_MAX"
proof -
  let ?xs = "drop EVENT_HDR buf"
  have len: "length ?xs = NAME_MAX + 1" and last0: "last ?xs = 0"
    using assms by (simp_all add: rbuf_ok_def size_defs last_drop)
  have "length (takeWhile (\<lambda>b. b \<noteq> 0) ?xs) \<noteq> length ?xs"
  proof
    assume "length (takeWhile (\<lambda>b. b \<noteq> 0) ?xs) = length ?xs"
    then have "takeWhile (\<lambda>b. b \<noteq> 0) ?xs = ?xs"
      by (metis takeWhile_eq_take take_all_iff order_refl)
    then have "\<forall>b \<in> set ?xs. b \<noteq> 0"
      by (metis set_takeWhileD)
    moreover have "last ?xs \<in> set ?xs" using len by (intro last_in_set) auto
    ultimately show False using last0 by auto
  qed
  then have "length (takeWhile (\<lambda>b. b \<noteq> 0) ?xs) < length ?xs"
    using length_takeWhile_le le_neq_implies_less by blast
  then show ?thesis using len by (simp add: cstr_def)
qed

text \<open>No crash: a record whose descriptor is not 0 either names no slot or a slot with a
  path, and its full path fits.\<close>

lemma handle_record_no_crash:
  assumes reg: "registry_ok (ino s) (inotifies s)" and short: "short_paths (inotifies s)"
    and nlen: "length (ie_name ev) \<le> NAME_MAX" and wd: "ie_wd ev \<noteq> 0"
  shows "\<exists>s'. handle_record ev s = Inr s'"
proof -
  let ?idx = "indexof (inotifies s) (ie_wd ev)"
  show ?thesis
  proof (cases "?idx = -1")
    case True
    then show ?thesis by (simp add: handle_record_def Let_def)
  next
    case False
    then obtain j where j: "lookup_slot (inotifies s) (ie_wd ev) = Some j" and idx: "?idx = int j"
      by (auto simp: indexof_lookup_slot split: option.splits)
    then have jlt: "j < length (inotifies s)" and jw: "watchfd (inotifies s ! j) = ie_wd ev"
      by (simp_all add: lookup_slot_Some)
    have "slot_ok (ino s) (inotifies s ! j)"
      using reg jlt by (simp add: registry_ok_def)
    with jw wd obtain p where p: "path (inotifies s ! j) = Some p"
      by (auto simp: slot_ok_def no_watch_def)
    have "p \<noteq> []" and plen: "length p + NAME_MAX + 1 < PATH_MAX"
      using short jlt p nth_mem by (fastforce simp: short_paths_def)+
    have "\<exists>full. path_of p (ie_name ev) = Some full"
    proof (cases "strstr_found p (ie_name ev)")
      case True
      then show ?thesis using plen by (simp add: path_of_def)
    next
      case False
      have "length (resolve_full_path p (ie_name ev)) < PATH_MAX"
        using plen nlen by (simp add: resolve_full_path_def)
      then show ?thesis using False \<open>p \<noteq> []\<close> by (simp add: path_of_join)
    qed
    then show ?thesis
      using idx p by (auto simp: handle_record_def Let_def split: prod.splits)
  qed
qed

lemma handle_event_no_crash:
  assumes "registry_ok (ino s) (inotifies s)" and "short_paths (inotifies s)"
    and "rbuf_ok (rbuf s)" and "ie_wd (buf_event (rbuf s)) \<noteq> 0"
  shows "\<exists>s'. handle_event s = Inr s'"
  using handle_record_no_crash [OF assms(1,2) _ assms(4)] cstr_rbuf_length [OF assms(3)]
  by (simp add: handle_event_def buf_event_def)

lemma handle_event_measure:
  assumes "inotify_read n (ino s) = (Inr bs, k)" and "handle_event (s\<lparr>ino := k, rbuf := buf\<rparr>) = Inr s'"
  shows "length (iw_faults (ino s')) + length (iw_queue (ino s'))
           < length (iw_faults (ino s)) + length (iw_queue (ino s))"
proof -
  have "iw_faults k = iw_faults (ino s)" and "length (iw_queue k) < length (iw_queue (ino s))"
    using inotify_read_progress(4) [OF assms(1)] by simp_all
  moreover have "iw_faults (ino s') = iw_faults k" and "iw_queue (ino s') = iw_queue k"
    using handle_event_frame [OF assms(2)] by simp_all
  ultimately show ?thesis by simp
qed

text \<open>The definitions the output for a concrete record unfolds to.\<close>

lemmas output_eval = event_output_def lookup_slot_def path_of_def fits_path_def PATH_MAX_def
  inspect_inotify_event_eq event_line_def describe_eval

subsection \<open>Properties of the handling of one record\<close>

text \<open>
  C8.  Under the registry invariant and with room for a name in every registered path,
  handling a record the kernel can produce never crashes; it prints exactly the lines the
  specification's lookup asks for and keeps the registry invariant.
\<close>

theorem handle_record_safe:
  assumes "registry_ok (ino s) (inotifies s)" and "short_paths (inotifies s)"
    and "valid_event ev" and "ie_wd ev \<noteq> 0"
  shows "\<exists>s'. handle_record ev s = Inr s' \<and> stdout s' = stdout s @ event_output (inotifies s) ev
           \<and> registry_ok (ino s') (inotifies s')"
proof -
  obtain s' where h: "handle_record ev s = Inr s'"
    using handle_record_no_crash [OF assms(1,2) _ assms(4)] assms(3) by (auto simp: valid_event_def)
  then show ?thesis
    using handle_record_stdout [OF h] handle_record_registry_ok [OF h assms(1)] by blast
qed

theorem handle_record_safe_witness:
  "\<exists>s'. handle_record \<lparr>ie_wd = 1, ie_mask = IN_CREATE, ie_cookie = 0, ie_name = ''x''\<rparr>
          \<lparr>inofd = 3, inotifies = [\<lparr>watchfd = 1, path = Some ''/tmp/a''\<rparr>], rbuf = replicate READ_BUF 0,
           stdout = [], stderr = [],
           ino = \<lparr>iw_watches = [(''/tmp/a'', 1)], iw_next = 2, iw_queue = [], iw_faults = []\<rparr>,
           fs = [''/tmp/a'', ''/tmp/a/x'']\<rparr> = Inr s'
        \<and> stdout s' = [''`/tmp/a/x`: CREATE(event.name=`x`)'']"
proof -
  let ?ev = "\<lparr>ie_wd = 1, ie_mask = IN_CREATE, ie_cookie = 0, ie_name = ''x''\<rparr>"
  let ?s = "\<lparr>inofd = 3, inotifies = [\<lparr>watchfd = 1, path = Some ''/tmp/a''\<rparr>], rbuf = replicate READ_BUF 0,
           stdout = [], stderr = [],
           ino = \<lparr>iw_watches = [(''/tmp/a'', 1)], iw_next = 2, iw_queue = [], iw_faults = []\<rparr>,
           fs = [''/tmp/a'', ''/tmp/a/x'']\<rparr>"
  have reg: "registry_ok (ino ?s) (inotifies ?s)"
    by (simp add: registry_eval)
  have short: "short_paths (inotifies ?s)" by (simp add: short_paths_def size_defs)
  have valid: "valid_event ?ev" by (simp add: valid_event_def int32_ok_def NAME_MAX_def)
  have nf: "\<not> strstr_found ''/tmp/a'' ''x''" by (rule not_strstr_found_chars) simp
  have eo: "event_output (inotifies ?s) ?ev = [''`/tmp/a/x`: CREATE(event.name=`x`)'']"
    using nf by (simp add: output_eval)
  have wd: "ie_wd ?ev \<noteq> 0" by simp
  obtain s' where "handle_record ?ev ?s = Inr s'" and "stdout s' = stdout ?s @ event_output (inotifies ?s) ?ev"
    using handle_record_safe [OF reg short valid wd] by blast
  then show ?thesis using eo by auto
qed

text \<open>
  C9.  A record whose descriptor no slot holds (a stale handle, or a watch the program
  added itself) is skipped silently: nothing is printed and nothing changes.
\<close>

theorem handle_record_stale:
  "ie_wd ev \<notin> watchfd ` set (inotifies s) \<Longrightarrow> handle_record ev s = Inr s"
  using lookup_slot_None [of "inotifies s" "ie_wd ev"]
  by (simp add: handle_record_def indexof_lookup_slot)

theorem handle_record_stale_witness:
  "handle_record \<lparr>ie_wd = 2, ie_mask = IN_MODIFY, ie_cookie = 0, ie_name = []\<rparr>
     \<lparr>inofd = 3, inotifies = [\<lparr>watchfd = 1, path = Some ''/tmp/a''\<rparr>], rbuf = replicate READ_BUF 0,
      stdout = [], stderr = [],
      ino = \<lparr>iw_watches = [(''/tmp/a/x'', 2), (''/tmp/a'', 1)], iw_next = 3, iw_queue = [], iw_faults = []\<rparr>,
      fs = [''/tmp/a'', ''/tmp/a/x'']\<rparr>
   = Inr \<lparr>inofd = 3, inotifies = [\<lparr>watchfd = 1, path = Some ''/tmp/a''\<rparr>], rbuf = replicate READ_BUF 0,
      stdout = [], stderr = [],
      ino = \<lparr>iw_watches = [(''/tmp/a/x'', 2), (''/tmp/a'', 1)], iw_next = 3, iw_queue = [], iw_faults = []\<rparr>,
      fs = [''/tmp/a'', ''/tmp/a/x'']\<rparr>"
  by (rule handle_record_stale) simp

text \<open>
  C10.  On a record with \<open>IN_CREATE\<close> the kernel is asked for a watch on the new full
  path, but the registry is not extended and nothing is written to stderr, whether the
  call succeeds or fails.
\<close>

theorem handle_record_create:
  assumes "ie_mask ev AND IN_CREATE \<noteq> 0" and "handle_record ev s = Inr s'"
    and "lookup_slot (inotifies s) (ie_wd ev) = Some j" and "path (inotifies s ! j) = Some p"
    and "path_of p (ie_name ev) = Some full"
  shows "ino s' = snd (inotify_add_watch (fs s) full default_events (ino s))
         \<and> inotifies s' = inotifies s \<and> stderr s' = stderr s"
  using assms by (auto simp: handle_record_def indexof_lookup_slot Let_def split: prod.splits)

theorem handle_record_create_witness:
  "\<exists>s'. handle_record \<lparr>ie_wd = 1, ie_mask = IN_CREATE, ie_cookie = 0, ie_name = ''x''\<rparr>
          \<lparr>inofd = 3, inotifies = [\<lparr>watchfd = 1, path = Some ''/tmp/a''\<rparr>], rbuf = replicate READ_BUF 0,
           stdout = [], stderr = [],
           ino = \<lparr>iw_watches = [(''/tmp/a'', 1)], iw_next = 2, iw_queue = [], iw_faults = []\<rparr>,
           fs = [''/tmp/a'']\<rparr> = Inr s'
        \<and> ino s' = \<lparr>iw_watches = [(''/tmp/a'', 1)], iw_next = 2, iw_queue = [], iw_faults = []\<rparr>
        \<and> stderr s' = []"
proof -
  let ?ev = "\<lparr>ie_wd = 1, ie_mask = IN_CREATE, ie_cookie = 0, ie_name = ''x''\<rparr>"
  let ?s = "\<lparr>inofd = 3, inotifies = [\<lparr>watchfd = 1, path = Some ''/tmp/a''\<rparr>], rbuf = replicate READ_BUF 0,
           stdout = [], stderr = [],
           ino = \<lparr>iw_watches = [(''/tmp/a'', 1)], iw_next = 2, iw_queue = [], iw_faults = []\<rparr>,
           fs = [''/tmp/a'']\<rparr>"
  have nf: "\<not> strstr_found ''/tmp/a'' ''x''" by (rule not_strstr_found_chars) simp
  have po: "path_of ''/tmp/a'' ''x'' = Some ''/tmp/a/x''"
    using nf by (simp add: path_of_def fits_path_def PATH_MAX_def)
  have reg: "registry_ok (ino ?s) (inotifies ?s)"
    by (simp add: registry_eval)
  have short: "short_paths (inotifies ?s)" by (simp add: short_paths_def size_defs)
  obtain s' where h: "handle_record ?ev ?s = Inr s'"
    using handle_record_no_crash [OF reg short] by (fastforce simp: NAME_MAX_def)
  have "ino s' = snd (inotify_add_watch (fs ?s) ''/tmp/a/x'' default_events (ino ?s))
        \<and> inotifies s' = inotifies ?s \<and> stderr s' = stderr ?s"
    using handle_record_create [of ?ev ?s s' 0 "''/tmp/a''" "''/tmp/a/x''"] h po
    by (simp add: mask_defs lookup_slot_def)
  then show ?thesis
    using h by (simp add: inotify_add_watch_def PATH_MAX_def)
qed

end
