(* ===== verification/Reader.thy ===== *)
theory Reader
  imports Dispatch
begin

text \<open>
  The drain loop \<open>read_inotify_events(inofd, inotifies, len)\<close> of \<open>src/main.c\<close>:
  \<open>do { read(inofd, buf, sizeof(buf)) ... } while (1)\<close>.  A read interrupted by a signal
  (\<open>EINTR\<close>) is retried, \<open>EAGAIN\<close> ends the loop normally, any other error is fatal; a
  read that returns data overwrites the front of the static buffer and hands it to
  \<open>handle_event\<close>.  The loop is a \<open>function\<close> whose termination measure is the number of
  errors and records still pending at the inotify instance: each retried read consumes an
  error and each successful read at least one record, and \<open>handle_event\<close> adds neither.
  The lemmas show that the loop always ends with the queue empty unless it fails, that
  it does not fail when the instance reports only interruptions and the registry
  invariant holds, and that it keeps the buffer invariant.
\<close>

subsection \<open>The loop\<close>

text \<open>\<open>read(fd, buf, sizeof(buf))\<close> on the process's descriptors: only the inotify
  instance is modelled.\<close>

definition write_rbuf :: "byte list \<Rightarrow> byte list \<Rightarrow> byte list" where
  "write_rbuf bs buf = bs @ drop (length bs) buf"

function read_inotify_events :: "fd \<Rightarrow> sys \<Rightarrow> failure + sys" where
  "read_inotify_events fd s =
     (if fd \<noteq> inofd s then Inl (Foreign_read fd)
      else case inotify_read READ_BUF (ino s) of
        (Inl e, k) \<Rightarrow>
          (if e = EINTR then read_inotify_events fd (s\<lparr>ino := k\<rparr>)
           else if e = EAGAIN then Inr (s\<lparr>ino := k\<rparr>)
           else Inl (Fatal (''read('' @ dec_int fd @ '')'') e))
      | (Inr bs, k) \<Rightarrow>
          (case handle_event (s\<lparr>ino := k, rbuf := write_rbuf bs (rbuf s)\<rparr>) of
             Inl f \<Rightarrow> Inl f
           | Inr s' \<Rightarrow> read_inotify_events fd s'))"
  by pat_completeness auto
termination
  by (relation "measure (\<lambda>(fd, s). length (iw_faults (ino s)) + length (iw_queue (ino s)))")
     (auto intro: inotify_read_measure_eintr [OF sym] handle_event_measure [OF sym])

declare read_inotify_events.simps [simp del]

subsection \<open>What a complete drain establishes\<close>

text \<open>
  The conditions under which the loop is run: it reads the inotify descriptor, the
  instance reports at most interruptions, the registry and buffer invariants hold, and
  every pending record is one the kernel produces for a real watch.
\<close>

definition drain_pre :: "fd \<Rightarrow> sys \<Rightarrow> bool" where
  "drain_pre fd s \<longleftrightarrow> fd = inofd s \<and> set (iw_faults (ino s)) \<subseteq> {EINTR}
     \<and> registry_ok (ino s) (inotifies s) \<and> short_paths (inotifies s) \<and> rbuf_ok (rbuf s)
     \<and> (\<forall>ev \<in> set (iw_queue (ino s)). valid_event ev \<and> ie_wd ev \<noteq> 0)"

text \<open>
  What the loop leaves behind: nothing pending, the registry and the invariants as they
  were, and (when every record carries a name) exactly the output of the first record of
  each read.
\<close>

definition drain_post :: "sys \<Rightarrow> sys \<Rightarrow> bool" where
  "drain_post s s' \<longleftrightarrow> iw_queue (ino s') = [] \<and> iw_faults (ino s') = []
     \<and> inotifies s' = inotifies s \<and> inofd s' = inofd s \<and> fs s' = fs s
     \<and> rbuf_ok (rbuf s') \<and> registry_ok (ino s') (inotifies s)
     \<and> ((\<forall>ev \<in> set (iw_queue (ino s)). ie_name ev \<noteq> []) \<longrightarrow>
          stdout s' = stdout s @ concat (map (event_output (inotifies s) \<circ> hd)
                                              (read_chunks READ_BUF (iw_queue (ino s)))))"

subsection \<open>Lemmas\<close>

lemma last_concat_encode:
  "evs \<noteq> [] \<Longrightarrow> last (concat (map encode_event evs)) = 0"
proof (induction evs rule: rev_nonempty_induct)
  case (single x)
  then show ?case by (simp add: last_encode_event)
next
  case (snoc x xs)
  then show ?case by (simp add: last_encode_event encode_event_nonempty)
qed

text \<open>Writing whole records at the front of the buffer keeps its size and its final NUL.\<close>

lemma write_rbuf_ok:
  assumes "rbuf_ok buf" and "evs \<noteq> []" and "length (concat (map encode_event evs)) \<le> READ_BUF"
  shows "rbuf_ok (write_rbuf (concat (map encode_event evs)) buf)"
proof -
  let ?bs = "concat (map encode_event evs)"
  have len: "length (write_rbuf ?bs buf) = READ_BUF"
    using assms(1,3) by (simp add: write_rbuf_def rbuf_ok_def)
  have "last (write_rbuf ?bs buf) = 0"
  proof (cases "length ?bs = READ_BUF")
    case True
    then have "write_rbuf ?bs buf = ?bs" using assms(1) by (simp add: write_rbuf_def rbuf_ok_def)
    then show ?thesis using last_concat_encode [OF assms(2)] by simp
  next
    case False
    then have "drop (length ?bs) buf \<noteq> []" using assms(1,3) by (simp add: rbuf_ok_def)
    then have "last (write_rbuf ?bs buf) = last (drop (length ?bs) buf)"
      by (simp add: write_rbuf_def)
    also have "\<dots> = last buf" using assms(1,3) False by (simp add: rbuf_ok_def last_drop)
    finally show ?thesis using assms(1) by (simp add: rbuf_ok_def)
  qed
  with len show ?thesis by (simp add: rbuf_ok_def)
qed

text \<open>The record at the front of the buffer after a read is the first record read.\<close>

lemma buf_event_write_rbuf:
  assumes "valid_event e"
  shows "ie_wd (buf_event (write_rbuf (concat (map encode_event (e # es))) buf)) = ie_wd e"
    and "ie_name e \<noteq> [] \<Longrightarrow> buf_event (write_rbuf (concat (map encode_event (e # es))) buf) = e"
proof -
  have eq: "write_rbuf (concat (map encode_event (e # es))) buf
              = encode_event e @ (concat (map encode_event es) @ drop (length (concat (map encode_event (e # es)))) buf)"
    by (simp add: write_rbuf_def)
  show "ie_wd (buf_event (write_rbuf (concat (map encode_event (e # es))) buf)) = ie_wd e"
    by (simp only: eq buf_event_encode_header [OF assms]) simp
  show "buf_event (write_rbuf (concat (map encode_event (e # es))) buf) = e" if "ie_name e \<noteq> []"
    by (simp only: eq buf_event_named [OF assms that])
qed

lemma registry_ok_same_watches:
  "registry_ok k tbl \<Longrightarrow> iw_watches k' = iw_watches k \<Longrightarrow> iw_next k' = iw_next k \<Longrightarrow> registry_ok k' tbl"
  by (simp add: registry_ok_def ino_ok_def slot_ok_def)

text \<open>The loop runs to the end: by computation induction along the loop itself.\<close>

lemma read_inotify_events_drain:
  "drain_pre fd s \<Longrightarrow> \<exists>s'. read_inotify_events fd s = Inr s' \<and> drain_post s s'"
proof (induction fd s rule: read_inotify_events.induct)
  case (1 fd s)
  note pre = "1.prems" [unfolded drain_pre_def]
  consider (intr) es where "iw_faults (ino s) = EINTR # es"
    | (empty) "iw_faults (ino s) = []" and "iw_queue (ino s) = []"
    | (data) e q where "iw_faults (ino s) = []" and "iw_queue (ino s) = e # q"
  proof -
    have "set (iw_faults (ino s)) \<subseteq> {EINTR}" using pre by blast
    then show ?thesis using that by (cases "iw_faults (ino s)"; cases "iw_queue (ino s)") auto
  qed
  then show ?case
  proof cases
    case intr
    let ?k = "(ino s)\<lparr>iw_faults := es\<rparr>"
    have rd: "inotify_read READ_BUF (ino s) = (Inl EINTR, ?k)"
      by (simp add: inotify_read_def intr)
    have eq: "read_inotify_events fd s = read_inotify_events fd (s\<lparr>ino := ?k\<rparr>)"
      using pre rd read_inotify_events.simps [of fd s] by simp
    have "registry_ok ?k (inotifies s)"
      by (rule registry_ok_same_watches [of "ino s"]) (use pre in simp_all)
    then have "drain_pre fd (s\<lparr>ino := ?k\<rparr>)"
      using pre intr by (simp add: drain_pre_def)
    then obtain s' where run: "read_inotify_events fd (s\<lparr>ino := ?k\<rparr>) = Inr s'"
      and post: "drain_post (s\<lparr>ino := ?k\<rparr>) s'"
      using "1.IH"(1) [OF _ rd [symmetric] refl refl] pre by blast
    have "drain_post s s'" using post by (simp add: drain_post_def)
    with run eq show ?thesis by simp
  next
    case empty
    have rd: "inotify_read READ_BUF (ino s) = (Inl EAGAIN, ino s)"
      by (simp add: inotify_read_def empty)
    then have "read_inotify_events fd s = Inr s"
      using pre read_inotify_events.simps [of fd s] by simp
    moreover have "drain_post s s"
      using pre empty by (simp add: drain_post_def)
    ultimately show ?thesis by blast
  next
    case data
    let ?c = "take_fitting READ_BUF (e # q)"
    let ?k = "(ino s)\<lparr>iw_queue := drop (length ?c) (e # q)\<rparr>"
    let ?s1 = "s\<lparr>ino := ?k, rbuf := write_rbuf (concat (map encode_event ?c)) (rbuf s)\<rparr>"
    have ve: "valid_event e" and we: "ie_wd e \<noteq> 0" using pre data by simp_all
    have fit: "length (encode_event e) \<le> READ_BUF" using ve by (rule encode_event_fits)
    then obtain c' where c: "?c = e # c'" using take_fitting_first by blast
    have rd: "inotify_read READ_BUF (ino s) = (Inr (concat (map encode_event ?c)), ?k)"
      using inotify_read_data(1) [OF data fit] .
    have chunks: "read_chunks READ_BUF (e # q) = ?c # read_chunks READ_BUF (drop (length ?c) (e # q))"
      using inotify_read_data(2) [OF data fit] .
    have reg1: "registry_ok ?k (inotifies s)"
      by (rule registry_ok_same_watches [of "ino s"]) (use pre in simp_all)
    have buf1: "rbuf_ok (rbuf ?s1)"
      using write_rbuf_ok [of "rbuf s" ?c] pre c length_concat_take_fitting [of READ_BUF "e # q"]
      by simp
    have wd1: "ie_wd (buf_event (rbuf ?s1)) = ie_wd e"
      using buf_event_write_rbuf(1) [OF ve, of c' "rbuf s"] c by simp
    obtain s2 where h: "handle_event ?s1 = Inr s2"
      using handle_event_no_crash [of ?s1] reg1 pre buf1 wd1 we by auto
    have eq: "read_inotify_events fd s = read_inotify_events fd s2"
      using pre rd h read_inotify_events.simps [of fd s] by simp
    have fr: "iw_queue (ino s2) = drop (length ?c) (e # q)" "iw_faults (ino s2) = []"
      "inotifies s2 = inotifies s" "inofd s2 = inofd s" "rbuf s2 = rbuf ?s1" "fs s2 = fs s"
      using handle_event_frame [OF h] data by simp_all
    have reg2: "registry_ok (ino s2) (inotifies s2)"
      using handle_event_registry_ok [OF h] reg1 by simp
    have "set (drop (length ?c) (e # q)) \<subseteq> set (e # q)" by (rule set_drop_subset)
    then have "drain_pre fd s2"
      using pre fr reg2 buf1 data by (auto simp: drain_pre_def)
    then obtain s' where run: "read_inotify_events fd s2 = Inr s'" and post: "drain_post s2 s'"
      using "1.IH"(2) [OF _ rd [symmetric] refl h] pre by blast
    have out: "stdout s2 = stdout s @ event_output (inotifies s) (buf_event (rbuf ?s1))"
      using handle_event_stdout [OF h] by simp
    have "(\<forall>ev \<in> set (e # q). ie_name ev \<noteq> []) \<Longrightarrow> buf_event (rbuf ?s1) = e"
      using buf_event_write_rbuf(2) [OF ve, of c' "rbuf s"] c by simp
    then have "drain_post s s'"
      using post fr out chunks c data \<open>set (drop (length ?c) (e # q)) \<subseteq> set (e # q)\<close>
      by (auto simp: drain_post_def)
    with run eq show ?thesis by simp
  qed
qed

text \<open>A read that returns a single named record: the drain is the handling of that record.\<close>

lemma read_inotify_events_one:
  assumes fd: "fd = inofd s" and nf: "iw_faults (ino s) = []" and q: "iw_queue (ino s) = [e]"
    and v: "valid_event e" and nm: "ie_name e \<noteq> []"
  shows "read_inotify_events fd s =
           (case handle_record e (s\<lparr>ino := (ino s)\<lparr>iw_queue := []\<rparr>, rbuf := write_rbuf (encode_event e) (rbuf s)\<rparr>) of
              Inl f \<Rightarrow> Inl f | Inr s' \<Rightarrow> Inr s')"
proof -
  let ?s1 = "s\<lparr>ino := (ino s)\<lparr>iw_queue := []\<rparr>, rbuf := write_rbuf (encode_event e) (rbuf s)\<rparr>"
  have fit: "take_fitting READ_BUF [e] = [e]" using encode_event_fits [OF v] by simp
  have rd: "inotify_read READ_BUF (ino s) = (Inr (encode_event e), (ino s)\<lparr>iw_queue := []\<rparr>)"
    using inotify_read_data(1) [OF nf q encode_event_fits [OF v]] fit by simp
  have be: "buf_event (write_rbuf (encode_event e) (rbuf s)) = e"
    using buf_event_write_rbuf(2) [OF v nm, of "[]" "rbuf s"] by simp
  have he: "handle_event ?s1 = handle_record e ?s1" by (simp add: handle_event_def be)
  have step: "read_inotify_events fd s =
      (case handle_event ?s1 of Inl f \<Rightarrow> Inl f | Inr s' \<Rightarrow> read_inotify_events fd s')"
    unfolding read_inotify_events.simps [of fd s] using fd rd by simp
  have stop: "read_inotify_events fd s' = Inr s'" if h: "handle_event ?s1 = Inr s'" for s'
  proof -
    have "inofd s' = inofd s" "iw_faults (ino s') = []" "iw_queue (ino s') = []"
      using handle_event_frame [OF h] nf by simp_all
    then show ?thesis
      unfolding read_inotify_events.simps [of fd s'] using fd by (simp add: inotify_read_def)
  qed
  show ?thesis
    using step stop he by (simp split: sum.splits)
qed

subsection \<open>Properties of the drain loop\<close>

text \<open>
  C4.  Under the drain conditions the loop terminates without error, leaves no record
  pending, keeps the registry (which it never extends) and its invariants and the
  buffer's final NUL, and, when every pending record carries a name, prints exactly the
  lines for the first record of each successive read.
\<close>

theorem read_inotify_events_complete:
  assumes "drain_pre fd s"
  shows "\<exists>s'. read_inotify_events fd s = Inr s' \<and> iw_queue (ino s') = [] \<and> inotifies s' = inotifies s
     \<and> registry_ok (ino s') (inotifies s') \<and> rbuf_ok (rbuf s')
     \<and> ((\<forall>ev \<in> set (iw_queue (ino s)). ie_name ev \<noteq> []) \<longrightarrow>
          stdout s' = stdout s @ concat (map (event_output (inotifies s) \<circ> hd)
                                              (read_chunks READ_BUF (iw_queue (ino s)))))"
  using read_inotify_events_drain [OF assms] by (auto simp: drain_post_def)

theorem read_inotify_events_complete_witness:
  "\<exists>s'. read_inotify_events 3
      \<lparr>inofd = 3, inotifies = [\<lparr>watchfd = 1, path = Some ''/tmp/a''\<rparr>], rbuf = replicate READ_BUF 0,
       stdout = [], stderr = [],
       ino = \<lparr>iw_watches = [(''/tmp/a'', 1)], iw_next = 2,
              iw_queue = [\<lparr>ie_wd = 1, ie_mask = IN_MODIFY, ie_cookie = 0, ie_name = ''x''\<rparr>], iw_faults = []\<rparr>,
       fs = [''/tmp/a'', ''/tmp/a/x'']\<rparr> = Inr s'
    \<and> stdout s' = [''`/tmp/a/x`: MODIFY(event.name=`x`)'']"
proof -
  let ?ev = "\<lparr>ie_wd = 1, ie_mask = IN_MODIFY, ie_cookie = 0, ie_name = ''x''\<rparr>"
  let ?s = "\<lparr>inofd = 3, inotifies = [\<lparr>watchfd = 1, path = Some ''/tmp/a''\<rparr>], rbuf = replicate READ_BUF 0,
       stdout = [], stderr = [],
       ino = \<lparr>iw_watches = [(''/tmp/a'', 1)], iw_next = 2,
              iw_queue = [?ev], iw_faults = []\<rparr>,
       fs = [''/tmp/a'', ''/tmp/a/x'']\<rparr>"
  have valid: "valid_event ?ev" by (simp add: valid_event_def int32_ok_def NAME_MAX_def)
  have pre: "drain_pre 3 ?s"
    using valid by (simp add: drain_pre_def registry_eval
        short_paths_def size_defs rbuf_ok_def)
  have fit: "take_fitting READ_BUF [?ev] = [?ev]" using encode_event_fits [OF valid] by simp
  have ch: "read_chunks READ_BUF [?ev] = [[?ev]]"
    using fit by (simp add: read_chunks.simps [of READ_BUF "[?ev]"])
  have nf: "\<not> strstr_found ''/tmp/a'' ''x''" by (rule not_strstr_found_chars) simp
  have eo: "event_output (inotifies ?s) ?ev = [''`/tmp/a/x`: MODIFY(event.name=`x`)'']"
    using nf by (simp add: output_eval)
  obtain s' where "read_inotify_events 3 ?s = Inr s'"
    and "stdout s' = stdout ?s @ concat (map (event_output (inotifies ?s) \<circ> hd) (read_chunks READ_BUF [?ev]))"
    using read_inotify_events_complete [OF pre] by auto
  then show ?thesis using ch eo by auto
qed

text \<open>
  C12.  The name of a nameless record is read from the static buffer after the header,
  where the previous read left its bytes: a nameless record that follows a named one
  reports the earlier record's name.
\<close>

theorem stale_name:
  assumes "valid_event e" and "valid_event e'" and "ie_name e = []" and "ie_name e' \<noteq> []"
    and "length (encode_event e') \<le> length buf"
  shows "buf_event (write_rbuf (encode_event e) (write_rbuf (encode_event e') buf)) = e\<lparr>ie_name := ie_name e'\<rparr>"
proof -
  let ?rest = "drop (length (encode_event e')) buf"
  have w1: "write_rbuf (encode_event e') buf = encode_event e' @ ?rest" by (simp add: write_rbuf_def)
  have len: "length (encode_event e) = EVENT_HDR" using assms(3) by (simp add: EVENT_HDR_def)
  have le: "EVENT_HDR \<le> length (encode_event e')" by (simp add: EVENT_HDR_def)
  have w2: "write_rbuf (encode_event e) (encode_event e' @ ?rest)
              = encode_event e @ drop EVENT_HDR (encode_event e' @ ?rest)"
    using len by (simp add: write_rbuf_def)
  have "ie_name (buf_event (encode_event e' @ ?rest)) = ie_name e'"
    by (simp only: buf_event_named [OF assms(2,4)])
  then have "cstr (drop EVENT_HDR (encode_event e' @ ?rest)) = ie_name e'"
    by (simp only: buf_event_def inotify_event.select_convs)
  then have "cstr (drop EVENT_HDR (encode_event e @ drop EVENT_HDR (encode_event e' @ ?rest))) = ie_name e'"
    using encode_event_nameless [OF assms(3)] by simp
  then show ?thesis
    using w1 w2 buf_event_encode_header [OF assms(1), of "drop EVENT_HDR (encode_event e' @ ?rest)"] by simp
qed

theorem stale_name_witness:
  "ie_name (buf_event (write_rbuf (encode_event \<lparr>ie_wd = 1, ie_mask = IN_MODIFY, ie_cookie = 0, ie_name = []\<rparr>)
              (write_rbuf (encode_event \<lparr>ie_wd = 1, ie_mask = IN_CREATE, ie_cookie = 0, ie_name = ''x''\<rparr>)
                (replicate READ_BUF 0)))) = ''x''"
proof -
  have v1: "valid_event \<lparr>ie_wd = 1, ie_mask = IN_MODIFY, ie_cookie = 0, ie_name = []\<rparr>"
    and v2: "valid_event \<lparr>ie_wd = 1, ie_mask = IN_CREATE, ie_cookie = 0, ie_name = ''x''\<rparr>"
    by (simp_all add: valid_event_def int32_ok_def NAME_MAX_def)
  have "length (encode_event \<lparr>ie_wd = 1, ie_mask = IN_CREATE, ie_cookie = 0, ie_name = ''x''\<rparr>)
          \<le> length (replicate READ_BUF (0 :: byte))"
    using encode_event_fits [OF v2] by simp
  then show ?thesis using stale_name [OF v1 v2] by simp
qed

text \<open>
  C13.  A read error other than \<open>EINTR\<close> and \<open>EAGAIN\<close> is fatal:
  \<open>fatal("read(%d): %m", inofd)\<close>.
\<close>

theorem read_error_fatal:
  "fd = inofd s \<Longrightarrow> iw_faults (ino s) = e # es \<Longrightarrow> e \<noteq> EINTR \<Longrightarrow> e \<noteq> EAGAIN \<Longrightarrow>
     read_inotify_events fd s = Inl (Fatal (''read('' @ dec_int fd @ '')'') e)"
  unfolding read_inotify_events.simps [of fd s] by (simp add: inotify_read_def)

theorem read_error_fatal_witness:
  "read_inotify_events 3 \<lparr>inofd = 3, inotifies = [], rbuf = replicate READ_BUF 0, stdout = [], stderr = [],
       ino = \<lparr>iw_watches = [], iw_next = 1, iw_queue = [], iw_faults = [EIO]\<rparr>, fs = []\<rparr>
     = Inl (Fatal ''read(3)'' EIO)"
  using read_error_fatal [of 3 "\<lparr>inofd = 3, inotifies = [], rbuf = replicate READ_BUF 0, stdout = [], stderr = [],
       ino = \<lparr>iw_watches = [], iw_next = 1, iw_queue = [], iw_faults = [EIO]\<rparr>, fs = []\<rparr>" EIO "[]"]
  by (simp add: dec_int_def dec_nat.simps digit_char_def)

text \<open>
  C14.  An interrupted read is retried with the instance otherwise unchanged, and
  \<open>EAGAIN\<close> ends the drain normally without touching the process state.
\<close>

theorem read_eintr_eagain:
  "fd = inofd s \<Longrightarrow>
     (iw_faults (ino s) = EINTR # es \<longrightarrow>
        read_inotify_events fd s = read_inotify_events fd (s\<lparr>ino := (ino s)\<lparr>iw_faults := es\<rparr>\<rparr>))
     \<and> (iw_faults (ino s) = [] \<and> iw_queue (ino s) = [] \<longrightarrow> read_inotify_events fd s = Inr s)"
  unfolding read_inotify_events.simps [of fd s] by (simp add: inotify_read_def)

theorem read_eintr_eagain_witness:
  "read_inotify_events 3 \<lparr>inofd = 3, inotifies = [], rbuf = replicate READ_BUF 0, stdout = [], stderr = [],
       ino = \<lparr>iw_watches = [], iw_next = 1, iw_queue = [], iw_faults = [EINTR]\<rparr>, fs = []\<rparr>
     = Inr \<lparr>inofd = 3, inotifies = [], rbuf = replicate READ_BUF 0, stdout = [], stderr = [],
       ino = \<lparr>iw_watches = [], iw_next = 1, iw_queue = [], iw_faults = []\<rparr>, fs = []\<rparr>"
proof -
  let ?s = "\<lparr>inofd = 3, inotifies = [], rbuf = replicate READ_BUF 0, stdout = [], stderr = [],
       ino = \<lparr>iw_watches = [], iw_next = 1, iw_queue = [], iw_faults = []\<rparr>, fs = []\<rparr>"
  have "read_inotify_events 3 ?s = Inr ?s" using read_eintr_eagain [of 3 ?s] by simp
  moreover have "read_inotify_events 3 (?s\<lparr>ino := (ino ?s)\<lparr>iw_faults := [EINTR]\<rparr>\<rparr>)
                   = read_inotify_events 3 ?s"
    using read_eintr_eagain [of 3 "?s\<lparr>ino := (ino ?s)\<lparr>iw_faults := [EINTR]\<rparr>\<rparr>" "[]"] by simp
  ultimately show ?thesis by simp
qed

end
