(* ===== verification/Poller.thy ===== *)
theory Poller
  imports Kernel
begin

text \<open>
  The readiness-polling abstraction of \<open>src/poller.h\<close> and its epoll backend in
  \<open>src/poller.c\<close>.  \<open>struct poller\<close> is a table of three function pointers; the model
  makes it a record of three functions over the backend's state \<open>'s\<close>, so that a client
  is written once for any backend.  The epoll backend's state is \<open>struct epoll_poller\<close>
  (the descriptor of its epoll instance and the instance itself); the C code recovers it
  from the embedded table with \<open>container_of\<close>, which in the model is simply the state
  argument.  \<open>poll\<close> fills the caller's array \<open>pevents\<close> and updates \<open>*len\<close>; it returns
  nothing, exits through \<open>fatal\<close> when \<open>epoll_wait\<close> fails, and blocks (\<open>None\<close>) until
  some registered fd is ready.  The abstract contract of the specification (section 4.1)
  is \<open>wait_ok\<close>: a non-empty answer, within capacity, of registered fds only.  The lemmas
  prove that the epoll backend meets it whenever some reported entry passes the
  backend's filter, and characterise what it returns when none does.
\<close>

unbundle bit_operations_syntax

subsection \<open>The interface\<close>

text \<open>\<open>struct poller\<close>: \<open>poll_add\<close>, \<open>poll_delete\<close>, \<open>poll\<close>.\<close>

record 's poller =
  poll_add :: "'s \<Rightarrow> fd \<Rightarrow> int \<times> 's"
  poll_delete :: "'s \<Rightarrow> fd \<Rightarrow> int \<times> 's"
  poll :: "'s \<Rightarrow> fd list \<Rightarrow> nat \<Rightarrow> (failure + fd list \<times> nat \<times> 's) option"

subsection \<open>The epoll backend\<close>

text \<open>\<open>struct epoll_poller { int epollfd; struct poller poller; }\<close>\<close>

record epoll_poller =
  epollfd :: fd
  epi :: epoll_inst

text \<open>
  \<open>epoll_operate\<close>: \<open>EPOLLIN | EPOLLET\<close> for every operation but \<open>EPOLL_CTL_DEL\<close>
  (whose event argument the kernel ignores); the result of \<open>epoll_ctl\<close>, 0 or -1.
\<close>

definition epoll_operate :: "epoll_poller \<Rightarrow> fd \<Rightarrow> int \<Rightarrow> int \<times> epoll_poller" where
  "epoll_operate p fd op =
     (let events = (if op \<noteq> EPOLL_CTL_DEL then EPOLLIN OR EPOLLET else 0)
      in case epoll_ctl op fd events (epi p) of
           (Inl e, ep') \<Rightarrow> (-1, p\<lparr>epi := ep'\<rparr>)
         | (Inr u, ep') \<Rightarrow> (0, p\<lparr>epi := ep'\<rparr>))"

definition epoll_poll_add :: "epoll_poller \<Rightarrow> fd \<Rightarrow> int \<times> epoll_poller" where
  "epoll_poll_add p fd = epoll_operate p fd EPOLL_CTL_ADD"

definition epoll_poll_del :: "epoll_poller \<Rightarrow> fd \<Rightarrow> int \<times> epoll_poller" where
  "epoll_poll_del p fd = epoll_operate p fd EPOLL_CTL_DEL"

text \<open>
  The loop of \<open>epoll_poll\<close>:
  \<open>for (i = 0, j = 0; i < n; i++) if (events[i].data.fd > 0 && events[i].events & EPOLLIN)
  { pevents[j++].fd = events[i].data.fd; *len = j; }\<close>.
  \<open>*len\<close> is written only when an entry passes the test.
\<close>

fun epoll_copy :: "(fd \<times> u32) list \<Rightarrow> fd list \<Rightarrow> nat \<Rightarrow> nat \<Rightarrow> fd list \<times> nat" where
  "epoll_copy [] pevents j len = (pevents, len)"
| "epoll_copy ((fd, evs) # es) pevents j len =
     (if 0 < fd \<and> evs AND EPOLLIN \<noteq> 0
      then epoll_copy es (pevents[j := fd]) (Suc j) (Suc j)
      else epoll_copy es pevents j len)"

text \<open>\<open>epoll_poll(poller, pevents, len)\<close>: \<open>epoll_wait(epollfd, events, *len, -1)\<close>, fatal on
  error, then the copy loop.\<close>

definition epoll_poll :: "epoll_poller \<Rightarrow> fd list \<Rightarrow> nat \<Rightarrow> (failure + fd list \<times> nat \<times> epoll_poller) option" where
  "epoll_poll p pevents len =
     (case epoll_wait len (epi p) of
        None \<Rightarrow> None
      | Some (Inl e, ep') \<Rightarrow> Some (Inl (Fatal ''epoll_wait'' e))
      | Some (Inr evs, ep') \<Rightarrow>
          (let (pev', len') = epoll_copy evs pevents 0 len in Some (Inr (pev', len', p\<lparr>epi := ep'\<rparr>))))"

text \<open>\<open>static struct poller poller_ops\<close>\<close>

definition poller_ops :: "epoll_poller poller" where
  "poller_ops = \<lparr>poll_add = epoll_poll_add, poll_delete = epoll_poll_del, poll = epoll_poll\<rparr>"

text \<open>\<open>poller_create()\<close>: the table and \<open>epoll_create(1)\<close>, whose result (a descriptor
  or an error) comes from the environment; an error is fatal.\<close>

definition poller_create :: "errno + fd \<Rightarrow> failure + epoll_poller" where
  "poller_create created =
     (case created of
        Inl e \<Rightarrow> Inl (Fatal ''epoll_create1'' e)
      | Inr efd \<Rightarrow> Inr \<lparr>epollfd = efd, epi = ep_init\<rparr>)"

subsection \<open>The contract of the specification\<close>

text \<open>
  The fds an epoll instance would report, and the contract of \<open>wait(capacity)\<close>: at
  least one and at most \<open>capacity\<close> entries, each a registered fd.
\<close>

definition registered :: "epoll_inst \<Rightarrow> fd set" where
  "registered ep = fst ` set (ep_interest ep)"

definition wait_ok :: "fd set \<Rightarrow> nat \<Rightarrow> fd list \<times> nat \<Rightarrow> bool" where
  "wait_ok reg cap r \<longleftrightarrow> 0 < snd r \<and> snd r \<le> cap \<and> snd r \<le> length (fst r)
     \<and> set (take (snd r) (fst r)) \<subseteq> reg"

text \<open>Which entries of \<open>epoll_wait\<close>'s answer the copy loop keeps.\<close>

definition passes :: "fd \<times> u32 \<Rightarrow> bool" where
  "passes x \<longleftrightarrow> 0 < fst x \<and> snd x AND EPOLLIN \<noteq> 0"

text \<open>The kernel reports only registered fds: the ready list is part of the interest list.\<close>

definition ep_ok :: "epoll_inst \<Rightarrow> bool" where
  "ep_ok ep \<longleftrightarrow> fst ` set (ep_ready ep) \<subseteq> fst ` set (ep_interest ep)"

subsection \<open>Lemmas\<close>

text \<open>The copy loop in closed form: the entries that pass are written from position \<open>j\<close>
  on, and \<open>*len\<close> is their end, or stays as it was when none passes.\<close>

lemma passes_iff: "passes (fd, evs) \<longleftrightarrow> 0 < fd \<and> evs AND EPOLLIN \<noteq> 0"
  by (simp add: passes_def)

lemma epoll_copy_eq:
  "j + length (filter passes es) \<le> length pev \<Longrightarrow>
   epoll_copy es pev j len =
     (if filter passes es = [] then (pev, len)
      else (take j pev @ map fst (filter passes es) @ drop (j + length (filter passes es)) pev,
            j + length (filter passes es)))"
proof (induction es pev j len rule: epoll_copy.induct)
  case (1 pevents j len)
  then show ?case by simp
next
  case (2 fd evs es pevents j len)
  show ?case
  proof (cases "passes (fd, evs)")
    case True
    then have j: "j < length pevents" using "2.prems" by simp
    have IH: "epoll_copy es (pevents[j := fd]) (Suc j) (Suc j) =
      (if filter passes es = [] then (pevents[j := fd], Suc j)
       else (take (Suc j) (pevents[j := fd]) @ map fst (filter passes es)
               @ drop (Suc j + length (filter passes es)) (pevents[j := fd]),
             Suc j + length (filter passes es)))"
      using "2.IH"(1) True "2.prems" by (simp add: passes_iff)
    have tk: "take (Suc j) (pevents[j := fd]) = take j pevents @ [fd]"
      using j by (simp add: take_Suc_conv_app_nth)
    have dr: "drop (Suc j + m) (pevents[j := fd]) = drop (Suc j + m) pevents" for m
      by simp
    have upd: "pevents[j := fd] = take j pevents @ [fd] @ drop (Suc j) pevents"
      using j by (simp add: upd_conv_take_nth_drop)
    show ?thesis
      using True IH tk dr upd by (simp add: passes_iff)
  next
    case False
    then have c: "\<not> (0 < fd \<and> evs AND EPOLLIN \<noteq> 0)" by (simp add: passes_iff)
    have step: "epoll_copy ((fd, evs) # es) pevents j len = epoll_copy es pevents j len"
      by (simp only: epoll_copy.simps(2) if_not_P [OF c])
    have flt: "filter passes ((fd, evs) # es) = filter passes es" using False by simp
    show ?thesis
      using "2.IH"(2) [OF c] "2.prems" by (simp only: step flt)
  qed
qed

lemma epoll_wait_Inr:
  assumes "epoll_wait n ep = Some (Inr evs, ep')"
  shows "evs = take n (ep_ready ep)" and "ep_faults ep = []" and "0 < n"
    and "ep_interest ep' = ep_interest ep"
  using assms by (auto simp: epoll_wait_def split: list.splits if_splits)

lemma epoll_wait_blocks:
  "ep_faults ep = [] \<Longrightarrow> 0 < n \<Longrightarrow> epoll_wait n ep = None \<longleftrightarrow> ep_ready ep = []"
  by (simp add: epoll_wait_def)

lemma epoll_poll_Inr:
  assumes "epoll_poll p pev len = Some (Inr (pev', n, p'))"
  shows "\<exists>evs ep'. epoll_wait len (epi p) = Some (Inr evs, ep') \<and> p' = p\<lparr>epi := ep'\<rparr>
           \<and> (pev', n) = epoll_copy evs pev 0 len"
  using assms
  by (auto simp: epoll_poll_def split: option.splits sum.splits prod.splits)

subsection \<open>Properties of the epoll backend\<close>

text \<open>
  C26.  The epoll backend implements the specification's \<open>wait(capacity)\<close> whenever at
  least one entry reported by \<open>epoll_wait\<close> passes the copy loop's filter: the caller's
  array then holds between one and \<open>capacity\<close> descriptors, each registered before.
\<close>

theorem epoll_poll_contract:
  assumes ok: "ep_ok (epi p)" and poll: "epoll_poll p pev len = Some (Inr (pev', n, p'))"
    and len: "length pev = len" and pass: "filter passes (take len (ep_ready (epi p))) \<noteq> []"
  shows "wait_ok (registered (epi p)) len (pev', n)"
proof -
  obtain evs ep' where w: "epoll_wait len (epi p) = Some (Inr evs, ep')"
    and c: "(pev', n) = epoll_copy evs pev 0 len"
    using epoll_poll_Inr [OF poll] by blast
  have evs: "evs = take len (ep_ready (epi p))" using epoll_wait_Inr(1) [OF w] .
  let ?f = "filter passes evs"
  have "length ?f \<le> len" using evs length_filter_le [of passes evs] by simp
  then have eq: "pev' = map fst ?f @ drop (length ?f) pev" and n: "n = length ?f"
    using c epoll_copy_eq [of 0 evs pev len] pass evs len by simp_all
  have "fst ` set ?f \<subseteq> fst ` set (ep_ready (epi p))"
    using evs by (auto dest: in_set_takeD)
  also have "\<dots> \<subseteq> registered (epi p)" using ok by (simp add: ep_ok_def registered_def)
  finally show ?thesis
    using eq n pass evs \<open>length ?f \<le> len\<close> len by (simp add: wait_ok_def)
qed

theorem epoll_poll_contract_witness:
  "wait_ok {3} 4 ([3, 0, 0, 0], 1)"
proof -
  let ?p = "\<lparr>epollfd = 4, epi = \<lparr>ep_interest = [(3, EPOLLIN OR EPOLLET)], ep_ready = [(3, EPOLLIN)],
             ep_faults = []\<rparr>\<rparr>"
  have poll: "epoll_poll ?p [0, 0, 0, 0] 4
      = Some (Inr ([3, 0, 0, 0], 1, ?p\<lparr>epi := (epi ?p)\<lparr>ep_ready := []\<rparr>\<rparr>))"
    by (simp add: epoll_poll_def epoll_wait_def EPOLLIN_def)
  have "ep_ok (epi ?p)" by (simp add: ep_ok_def)
  moreover have "filter passes (take 4 (ep_ready (epi ?p))) \<noteq> []" by (simp add: passes_def EPOLLIN_def)
  ultimately have "wait_ok (registered (epi ?p)) 4 ([3, 0, 0, 0], 1)"
    using epoll_poll_contract [OF _ poll] by simp
  then show ?thesis by (simp add: registered_def)
qed

text \<open>
  C27.  When no entry reported by \<open>epoll_wait\<close> passes the filter (\<open>fd > 0\<close> and
  \<open>EPOLLIN\<close>), \<open>epoll_poll\<close> returns the caller's array untouched and leaves \<open>*len\<close> at the
  capacity it was given, instead of reporting no ready descriptor.
\<close>

theorem epoll_poll_len_unchanged:
  "epoll_wait len (epi p) = Some (Inr evs, ep') \<Longrightarrow> filter passes evs = [] \<Longrightarrow>
     epoll_poll p pev len = Some (Inr (pev, len, p\<lparr>epi := ep'\<rparr>))"
  using epoll_copy_eq [of 0 evs pev len] by (simp add: epoll_poll_def)

theorem epoll_poll_len_unchanged_witness:
  "epoll_poll \<lparr>epollfd = 4, epi = \<lparr>ep_interest = [(0, EPOLLIN OR EPOLLET)], ep_ready = [(0, EPOLLIN)],
                ep_faults = []\<rparr>\<rparr> [0, 0] 2
   = Some (Inr ([0, 0], 2, \<lparr>epollfd = 4, epi = \<lparr>ep_interest = [(0, EPOLLIN OR EPOLLET)], ep_ready = [],
                ep_faults = []\<rparr>\<rparr>))"
  using epoll_poll_len_unchanged [of 2 "\<lparr>epollfd = 4, epi = \<lparr>ep_interest = [(0, EPOLLIN OR EPOLLET)],
      ep_ready = [(0, EPOLLIN)], ep_faults = []\<rparr>\<rparr>" "[(0, EPOLLIN)]"
      "\<lparr>ep_interest = [(0, EPOLLIN OR EPOLLET)], ep_ready = [], ep_faults = []\<rparr>"]
  by (simp add: epoll_wait_def passes_def)

text \<open>
  C28.  \<open>poll_add\<close> registers a descriptor for \<open>EPOLLIN | EPOLLET\<close> and returns 0, or
  returns -1 and changes nothing when it is already registered; \<open>poll_delete\<close> removes a
  registered descriptor from the interest and ready lists and returns 0, or returns -1.
\<close>

theorem epoll_poll_add_del:
  "epoll_poll_add p fd =
     (if fd \<in> registered (epi p) then (-1, p)
      else (0, p\<lparr>epi := (epi p)\<lparr>ep_interest := ep_interest (epi p) @ [(fd, EPOLLIN OR EPOLLET)]\<rparr>\<rparr>))
   \<and> epoll_poll_del p fd =
     (if fd \<notin> registered (epi p) then (-1, p)
      else (0, p\<lparr>epi := (epi p)\<lparr>ep_interest := filter (\<lambda>x. fst x \<noteq> fd) (ep_interest (epi p)),
                                  ep_ready := filter (\<lambda>x. fst x \<noteq> fd) (ep_ready (epi p))\<rparr>\<rparr>))"
  by (simp add: epoll_poll_add_def epoll_poll_del_def epoll_operate_def epoll_ctl_def registered_def
      EPOLL_CTL_ADD_def EPOLL_CTL_DEL_def)

end
