(* ===== verification/MainLoop.thy ===== *)
theory MainLoop
  imports Reader Poller
begin

text \<open>
  \<open>inotify_all_file\<close> and \<open>main\<close> of \<open>src/main.c\<close>, and the running program as a state
  machine together with its environment.  Start-up registers the paths, prints the
  inotify descriptor and one line per watch, creates the poller and registers the inotify
  descriptor with it.  Each iteration of \<open>for (;;)\<close> asks the poller (through its
  function table, for any backend) for at most \<open>NUM_EVENTS\<close> ready descriptors and drains
  each of them.  The world is the process state and the epoll backend; its steps are the
  program's iterations and the environment's actions: a change on a watched path queues a
  record and gives the inotify descriptor an edge, a creation also adds the new path, a
  signal interrupts the blocked \<open>epoll_wait\<close>.  The lemmas show that every reachable
  world keeps the invariants of all components, that an iteration never waits while a
  record is pending and drains everything when it runs, and what a signal does.
\<close>

unbundle bit_operations_syntax

subsection \<open>Start-up\<close>

definition NUM_EVENTS :: nat where "NUM_EVENTS = 1024"

text \<open>\<open>printf("watchfd: %d for path: `%s`\n", ...)\<close> for every slot with a path.\<close>

definition watch_lines :: "inotify list \<Rightarrow> string list" where
  "watch_lines tbl = concat (map (\<lambda>e. case path e of None \<Rightarrow> []
     | Some p \<Rightarrow> [''watchfd: '' @ dec_int (watchfd e) @ '' for path: `'' @ p @ ''`'']) tbl)"

text \<open>
  The start-up half of \<open>inotify_all_file(argc, argv)\<close>: \<open>register_inotify_files\<close>, the
  listing, \<open>poller_create\<close>, \<open>poller->poll_add(poller, inofd)\<close> (whose result is ignored).
  The results of \<open>inotify_init1\<close> and \<open>epoll_create\<close> and the paths that exist come from
  the environment.  The static read buffer starts zeroed.  A failure comes with what was
  already written to stdout and stderr: the listing and the registration errors precede
  \<open>poller_create\<close>.
\<close>

definition startup :: "errno + fd \<Rightarrow> errno + fd \<Rightarrow> string list \<Rightarrow> string list
    \<Rightarrow> (string list \<times> string list \<times> failure) + sys \<times> epoll_poller" where
  "startup init created ex files =
     (case register_inotify_files init ex files of
        Inl f \<Rightarrow> Inl ([], [], f)
      | Inr (ctx, k, errs) \<Rightarrow>
          (let out = (''inotify fd: '' @ dec_int (ctx_inofd ctx)) # watch_lines (ctx_inotifies ctx)
           in case poller_create created of
                Inl f \<Rightarrow> Inl (out, errs, f)
              | Inr p \<Rightarrow>
                  (let (r, p') = poll_add poller_ops p (ctx_inofd ctx)
                   in Inr (\<lparr>inofd = ctx_inofd ctx, inotifies = ctx_inotifies ctx,
                            rbuf = replicate READ_BUF 0, stdout = out,
                            stderr = errs, ino = k, fs = ex\<rparr>, p'))))"

subsection \<open>One iteration\<close>

text \<open>\<open>for (i = 0; i < nready; i++) read_inotify_events(events[i].fd, inotifies, len);\<close>\<close>

fun read_all :: "fd list \<Rightarrow> sys \<Rightarrow> failure + sys" where
  "read_all [] s = Inr s"
| "read_all (fd # fds) s =
     (case read_inotify_events fd s of Inl f \<Rightarrow> Inl f | Inr s' \<Rightarrow> read_all fds s')"

text \<open>
  One turn of \<open>for (;;)\<close>: a fresh zeroed \<open>events[NUM_EVENTS]\<close>, \<open>nready = NUM_EVENTS\<close>,
  \<open>poller->poll(poller, events, &nready)\<close>, then the reads.  \<open>None\<close>: the poller blocks.
\<close>

definition loop_iteration :: "'p poller \<Rightarrow> 'p \<Rightarrow> sys \<Rightarrow> (failure + 'p \<times> sys) option" where
  "loop_iteration P ps s =
     (case poll P ps (replicate NUM_EVENTS 0) NUM_EVENTS of
        None \<Rightarrow> None
      | Some (Inl f) \<Rightarrow> Some (Inl f)
      | Some (Inr (evs, n, ps')) \<Rightarrow>
          Some (case read_all (take n evs) s of Inl f \<Rightarrow> Inl f | Inr s' \<Rightarrow> Inr (ps', s')))"

subsection \<open>main\<close>

text \<open>What a run of \<open>main\<close> comes to: the usage message, a start-up failure, or the loop.\<close>

datatype outcome = Usage string | Failed "string list" "string list" failure
  | Started "sys \<times> epoll_poller"

definition usage_line :: "string list \<Rightarrow> string" where
  "usage_line argv = ''Usage: '' @ (case argv of [] \<Rightarrow> ''(null)'' | a # _ \<Rightarrow> a)
     @ '' file1 [file2 file3...]''"

definition main_prog :: "string list \<Rightarrow> errno + fd \<Rightarrow> errno + fd \<Rightarrow> string list \<Rightarrow> outcome" where
  "main_prog argv init created ex =
     (if length argv < 2 then Usage (usage_line argv)
      else case startup init created ex (tl argv) of
             Inl (out, err, f) \<Rightarrow> Failed out err f
           | Inr st \<Rightarrow> Started st)"

text \<open>
  What the process has written to stdout and stderr when it exits, and its exit status:
  \<open>fprintf(stderr, "Usage: ...")\<close> and \<open>exit(EXIT_FAILURE)\<close>, or \<open>fatal\<close> after what
  start-up had printed.  A started program never exits by itself (\<open>None\<close>).
\<close>

definition exit_report :: "outcome \<Rightarrow> (string list \<times> string list \<times> int) option" where
  "exit_report r = (case r of
      Usage u \<Rightarrow> Some ([], [u], EXIT_FAILURE)
    | Failed out err (Fatal msg e) \<Rightarrow> Some (out, err @ [fatal_line msg e], EXIT_FAILURE)
    | Failed out err _ \<Rightarrow> None
    | Started st \<Rightarrow> None)"

subsection \<open>The running program and its environment\<close>

record world =
  wsys :: sys
  wpoll :: epoll_poller

text \<open>
  The kernel queues a record on every watch of \<open>p\<close>; new input gives the inotify
  descriptor an edge at the epoll instance.
\<close>

definition deliver :: "string \<Rightarrow> u32 \<Rightarrow> u32 \<Rightarrow> string \<Rightarrow> world \<Rightarrow> world" where
  "deliver p m c name w =
     (let s = wsys w; k' = queue_event p m c name (ino s)
      in if iw_queue k' = iw_queue (ino s) then w
         else w\<lparr>wsys := s\<lparr>ino := k'\<rparr>,
                wpoll := (wpoll w)\<lparr>epi := ep_signal (inofd s) (epi (wpoll w))\<rparr>\<rparr>)"

text \<open>A name the kernel can report: a directory entry.\<close>

definition valid_name :: "string \<Rightarrow> bool" where
  "valid_name n \<longleftrightarrow> n \<noteq> [] \<and> CHR 0x00 \<notin> set n \<and> CHR ''/'' \<notin> set n \<and> length n \<le> NAME_MAX"

inductive step :: "world \<Rightarrow> world \<Rightarrow> bool" where
  iterate: "loop_iteration poller_ops (wpoll w) (wsys w) = Some (Inr (p', s')) \<Longrightarrow>
     step w \<lparr>wsys = s', wpoll = p'\<rparr>"
| notify: "name = [] \<or> valid_name name \<Longrightarrow> step w (deliver p m c name w)"
| create: "valid_name name \<Longrightarrow>
     step w (deliver d IN_CREATE 0 name (w\<lparr>wsys := (wsys w)\<lparr>fs := fs (wsys w) @ [d @ ''/'' @ name]\<rparr>\<rparr>))"
| signal: "ep_faults (epi (wpoll w)) = [] \<Longrightarrow>
     step w (w\<lparr>wpoll := (wpoll w)\<lparr>epi := (epi (wpoll w))\<lparr>ep_faults := [EINTR]\<rparr>\<rparr>\<rparr>)"

subsection \<open>The invariant of the running program\<close>

text \<open>
  All component invariants at once, and the two facts that tie the components together:
  the inotify descriptor is the only fd registered with the poller, and it is ready at the
  poller exactly when records are pending (no wake-up is lost under edge triggering).
\<close>

definition world_ok :: "world \<Rightarrow> bool" where
  "world_ok w \<longleftrightarrow>
     (let s = wsys w; ep = epi (wpoll w)
      in 0 < inofd s \<and> registry_ok (ino s) (inotifies s) \<and> short_paths (inotifies s)
         \<and> rbuf_ok (rbuf s) \<and> iw_faults (ino s) = []
         \<and> (\<forall>ev \<in> set (iw_queue (ino s)). valid_event ev \<and> 0 < ie_wd ev)
         \<and> ep_interest ep = [(inofd s, EPOLLIN OR EPOLLET)]
         \<and> ep_ready ep = (if iw_queue (ino s) = [] then [] else [(inofd s, EPOLLIN)])
         \<and> set (ep_faults ep) \<subseteq> {EINTR})"

text \<open>The conditions on a start-up for which the invariant is established.\<close>

definition good_start :: "errno + fd \<Rightarrow> string list \<Rightarrow> bool" where
  "good_start init files \<longleftrightarrow> (\<exists>fd. init = Inr fd \<and> 0 < fd)
     \<and> (\<forall>f \<in> set files. f \<noteq> [] \<and> length f + NAME_MAX + 1 < PATH_MAX)
     \<and> 1 + int (length files) \<le> WD_LIMIT"

subsection \<open>Lemmas: start-up\<close>

lemma register_loop_frame:
  "register_loop ex files i tbl k errs = (tbl', k', errs') \<Longrightarrow>
     iw_queue k' = iw_queue k \<and> iw_faults k' = iw_faults k
     \<and> (\<forall>e \<in> set tbl'. e \<in> set tbl \<or> (\<exists>f \<in> set files. path e = Some f))"
proof (induction ex files i tbl k errs arbitrary: tbl' rule: register_loop.induct)
  case (2 ex f files i tbl k errs)
  obtain r k1 where add: "inotify_add_watch ex f default_events k = (r, k1)" by fastforce
  have q: "iw_queue k1 = iw_queue k" "iw_faults k1 = iw_faults k"
    using inotify_add_watch_queue [of ex f default_events k] add by simp_all
  show ?case
  proof (cases r)
    case (Inl e)
    then show ?thesis using "2.IH"(1) [OF add [symmetric] Inl] "2.prems" add q by auto
  next
    case (Inr w)
    have "\<forall>e \<in> set tbl'. e \<in> set (tbl[i := \<lparr>watchfd = w, path = Some f\<rparr>]) \<or> (\<exists>f \<in> set files. path e = Some f)"
      and "iw_queue k' = iw_queue k1" "iw_faults k' = iw_faults k1"
      using "2.IH"(2) [OF add [symmetric] Inr] "2.prems" add Inr by auto
    then show ?thesis using q set_update_subset_insert by fastforce
  qed
qed simp

lemma startup_Inr:
  assumes "startup init created ex files = Inr (s, p)"
  shows "\<exists>fd efd tbl errs. init = Inr fd \<and> created = Inr efd
           \<and> register_loop ex files 0 (replicate (length files) no_watch) ino_init [] = (tbl, ino s, errs)
           \<and> s = \<lparr>inofd = fd, inotifies = tbl, rbuf = replicate READ_BUF 0,
                  stdout = (''inotify fd: '' @ dec_int fd) # watch_lines tbl,
                  stderr = errs, ino = ino s, fs = ex\<rparr>
           \<and> p = \<lparr>epollfd = efd, epi = \<lparr>ep_interest = [(fd, EPOLLIN OR EPOLLET)], ep_ready = [], ep_faults = []\<rparr>\<rparr>"
  using assms
  by (auto simp: startup_def register_inotify_files_def poller_create_def poller_ops_def
        epoll_poll_add_def epoll_operate_def epoll_ctl_def ep_init_def EPOLL_CTL_ADD_def EPOLL_CTL_DEL_def
        split: sum.splits prod.splits)

lemma world_ok_startup:
  assumes "startup init created ex files = Inr (s, p)" and "good_start init files"
  shows "world_ok \<lparr>wsys = s, wpoll = p\<rparr>"
proof -
  obtain fd efd tbl errs where init: "init = Inr fd" and reg:
      "register_loop ex files 0 (replicate (length files) no_watch) ino_init [] = (tbl, ino s, errs)"
    and s: "s = \<lparr>inofd = fd, inotifies = tbl, rbuf = replicate READ_BUF 0,
                  stdout = (''inotify fd: '' @ dec_int fd) # watch_lines tbl,
                  stderr = errs, ino = ino s, fs = ex\<rparr>"
    and p: "p = \<lparr>epollfd = efd, epi = \<lparr>ep_interest = [(fd, EPOLLIN OR EPOLLET)], ep_ready = [], ep_faults = []\<rparr>\<rparr>"
    using startup_Inr [OF assms(1)] by blast
  have fd: "0 < fd" using assms(2) init by (simp add: good_start_def)
  have "registry_ok ino_init (replicate (length files) no_watch)"
    by (simp add: registry_ok_def ino_ok_init slot_ok_def)
  then have rok: "registry_ok (ino s) tbl" using register_loop_ok [OF reg] by simp
  have fr: "iw_queue (ino s) = []" "iw_faults (ino s) = []"
      and paths: "\<forall>e \<in> set tbl. e = no_watch \<or> (\<exists>f \<in> set files. path e = Some f)"
    using register_loop_frame [OF reg] by (auto simp: ino_init_def)
  have "short_paths tbl"
    using paths assms(2) by (fastforce simp: short_paths_def good_start_def no_watch_def)
  moreover have "rbuf_ok (replicate READ_BUF 0)" by (simp add: rbuf_ok_def size_defs)
  ultimately show ?thesis
    using fd rok fr by (subst s, subst p) (simp add: world_ok_def)
qed

subsection \<open>Lemmas: one iteration over the epoll backend\<close>

lemma NUM_EVENTS_pos: "0 < NUM_EVENTS"
  by (simp add: NUM_EVENTS_def)

lemma take_one_update_replicate: "0 < n \<Longrightarrow> take 1 ((replicate n a)[0 := x]) = [x]"
  by (cases n) simp_all

text \<open>A pending fault of \<open>epoll_wait\<close> ends the iteration with \<open>fatal("epoll_wait")\<close>.\<close>

lemma loop_iteration_fault:
  "ep_faults (epi p) = e # es \<Longrightarrow>
     loop_iteration poller_ops p s = Some (Inl (Fatal ''epoll_wait'' e))"
  by (simp add: loop_iteration_def poller_ops_def epoll_poll_def epoll_wait_def)

text \<open>Nothing ready and no fault: the iteration blocks in \<open>epoll_wait\<close>.\<close>

lemma loop_iteration_block:
  "ep_faults (epi p) = [] \<Longrightarrow> ep_ready (epi p) = [] \<Longrightarrow> loop_iteration poller_ops p s = None"
  using NUM_EVENTS_pos
  by (simp add: loop_iteration_def poller_ops_def epoll_poll_def epoll_wait_def)

text \<open>The inotify descriptor ready: the iteration is one drain of it.\<close>

lemma loop_iteration_ready:
  assumes "ep_faults (epi p) = []" and "ep_ready (epi p) = [(fd, EPOLLIN)]" and "0 < fd"
  shows "loop_iteration poller_ops p s =
           Some (case read_inotify_events fd s of
                   Inl f \<Rightarrow> Inl f
                 | Inr s' \<Rightarrow> Inr (p\<lparr>epi := (epi p)\<lparr>ep_ready := []\<rparr>\<rparr>, s'))"
proof -
  have n: "NUM_EVENTS \<noteq> 0" "take NUM_EVENTS [(fd, EPOLLIN)] = [(fd, EPOLLIN)]"
      "drop NUM_EVENTS [(fd, EPOLLIN)] = []"
    using NUM_EVENTS_pos by simp_all
  have w: "epoll_wait NUM_EVENTS (epi p) = Some (Inr [(fd, EPOLLIN)], (epi p)\<lparr>ep_ready := []\<rparr>)"
    using assms(1,2) n by (simp add: epoll_wait_def)
  have c: "epoll_copy [(fd, EPOLLIN)] (replicate NUM_EVENTS 0) 0 NUM_EVENTS
             = ((replicate NUM_EVENTS 0)[0 := fd], 1)"
    using assms(3) by (simp add: EPOLLIN_def)
  show ?thesis
    using w c take_one_update_replicate [OF NUM_EVENTS_pos, of 0 fd]
    by (simp add: loop_iteration_def poller_ops_def epoll_poll_def split: sum.splits)
qed

subsection \<open>Lemmas: the invariant of the running program\<close>

lemma ep_signal_registered:
  assumes "ep_interest ep = [(fd, EPOLLIN OR EPOLLET)]"
    and "ep_ready ep = [] \<or> ep_ready ep = [(fd, EPOLLIN)]"
  shows "ep_signal fd ep = ep\<lparr>ep_ready := [(fd, EPOLLIN)]\<rparr>"
proof -
  have "(EPOLLIN OR EPOLLET) AND EPOLLIN \<noteq> 0" by (simp add: EPOLLIN_def EPOLLET_def)
  then show ?thesis using assms by (cases ep) (auto simp: ep_signal_def)
qed

text \<open>A world satisfying the invariant satisfies the conditions of a drain of its inotify
  descriptor.\<close>

lemma world_ok_drain_pre: "world_ok w \<Longrightarrow> drain_pre (inofd (wsys w)) (wsys w)"
  by (auto simp: world_ok_def drain_pre_def Let_def)

lemma world_ok_iterate:
  assumes ok: "world_ok w" and it: "loop_iteration poller_ops (wpoll w) (wsys w) = Some (Inr (p', s'))"
  shows "world_ok \<lparr>wsys = s', wpoll = p'\<rparr> \<and> drain_post (wsys w) s'"
proof -
  let ?s = "wsys w" and ?ep = "epi (wpoll w)"
  have inv: "0 < inofd ?s" "registry_ok (ino ?s) (inotifies ?s)" "short_paths (inotifies ?s)"
      "rbuf_ok (rbuf ?s)" "iw_faults (ino ?s) = []"
      "ep_interest ?ep = [(inofd ?s, EPOLLIN OR EPOLLET)]"
      "ep_ready ?ep = (if iw_queue (ino ?s) = [] then [] else [(inofd ?s, EPOLLIN)])"
    using ok by (simp_all add: world_ok_def Let_def)
  have nf: "ep_faults ?ep = []"
  proof (cases "ep_faults ?ep")
    case (Cons e es)
    then show ?thesis using it loop_iteration_fault [of "wpoll w" e es "wsys w"] by simp
  qed
  have q: "iw_queue (ino ?s) \<noteq> []"
    using it loop_iteration_block [of "wpoll w" "wsys w"] nf inv(7) by auto
  then have rd: "ep_ready ?ep = [(inofd ?s, EPOLLIN)]" using inv(7) by simp
  have "drain_pre (inofd ?s) ?s" using ok by (rule world_ok_drain_pre)
  then obtain s'' where dr: "read_inotify_events (inofd ?s) ?s = Inr s''" and post: "drain_post ?s s''"
    using read_inotify_events_drain by blast
  have "s' = s''" and p': "p' = (wpoll w)\<lparr>epi := ?ep\<lparr>ep_ready := []\<rparr>\<rparr>"
    using it loop_iteration_ready [OF nf rd inv(1), of ?s] dr by simp_all
  then show ?thesis
    using post inv nf by (simp add: world_ok_def drain_post_def)
qed

lemma world_ok_deliver:
  assumes ok: "world_ok w" and nm: "name = [] \<or> valid_name name"
  shows "world_ok (deliver p m c name w)"
proof (cases "map_of (iw_watches (ino (wsys w))) p")
  case None
  then show ?thesis using ok by (simp add: deliver_def queue_event_def)
next
  case (Some wd)
  let ?s = "wsys w" and ?ep = "epi (wpoll w)"
  let ?ev = "\<lparr>ie_wd = wd, ie_mask = m, ie_cookie = c, ie_name = name\<rparr>"
  have inv: "0 < inofd ?s" "registry_ok (ino ?s) (inotifies ?s)"
      "ep_interest ?ep = [(inofd ?s, EPOLLIN OR EPOLLET)]"
      "ep_ready ?ep = (if iw_queue (ino ?s) = [] then [] else [(inofd ?s, EPOLLIN)])"
      "short_paths (inotifies ?s)" "rbuf_ok (rbuf ?s)" "iw_faults (ino ?s) = []"
      "\<forall>ev \<in> set (iw_queue (ino ?s)). valid_event ev \<and> 0 < ie_wd ev"
      "set (ep_faults ?ep) \<subseteq> {EINTR}"
    using ok by (simp_all add: world_ok_def Let_def)
  have mem: "(p, wd) \<in> set (iw_watches (ino ?s))" using Some by (rule map_of_SomeD)
  have iok: "ino_ok (ino ?s)" using inv(2) by (simp add: registry_ok_def)
  have "valid_event ?ev \<and> 0 < ie_wd ?ev"
    using ino_ok_watch_pos [OF iok mem] ino_ok_watch_int32 [OF iok mem] nm
    by (auto simp: valid_event_def valid_name_def)
  moreover have "registry_ok (queue_event p m c name (ino ?s)) (inotifies ?s)"
    using inv(2) by (rule registry_ok_same_watches) (simp_all add: queue_event_def Some)
  moreover have "ep_signal (inofd ?s) ?ep = ?ep\<lparr>ep_ready := [(inofd ?s, EPOLLIN)]\<rparr>"
    using inv(3,4) by (intro ep_signal_registered) simp_all
  ultimately show ?thesis
    using inv Some by (simp add: deliver_def queue_event_def world_ok_def Let_def)
qed

lemma world_ok_step: "step w w' \<Longrightarrow> world_ok w \<Longrightarrow> world_ok w'"
proof (induction rule: step.induct)
  case (iterate w p' s')
  then show ?case using world_ok_iterate by blast
next
  case (notify name w p m c)
  show ?case using notify(2,1) by (rule world_ok_deliver)
next
  case (create name w d)
  have "world_ok (w\<lparr>wsys := (wsys w)\<lparr>fs := fs (wsys w) @ [d @ ''/'' @ name]\<rparr>\<rparr>)"
    using create(2) by (simp add: world_ok_def Let_def)
  then show ?case using create(1) by (intro world_ok_deliver) simp_all
next
  case (signal w)
  then show ?case by (simp add: world_ok_def Let_def)
qed

text \<open>An iteration over a single pending named record is the handling of that record.\<close>

lemma loop_iteration_one:
  assumes ok: "world_ok w" and nf: "ep_faults (epi (wpoll w)) = []"
    and q: "iw_queue (ino (wsys w)) = [e]" and nm: "ie_name e \<noteq> []"
  shows "loop_iteration poller_ops (wpoll w) (wsys w) =
     (case handle_record e ((wsys w)\<lparr>ino := (ino (wsys w))\<lparr>iw_queue := []\<rparr>,
                                    rbuf := write_rbuf (encode_event e) (rbuf (wsys w))\<rparr>) of
        Inl f \<Rightarrow> Some (Inl f)
      | Inr s' \<Rightarrow> Some (Inr ((wpoll w)\<lparr>epi := (epi (wpoll w))\<lparr>ep_ready := []\<rparr>\<rparr>, s')))"
proof -
  let ?s = "wsys w"
  have inv: "0 < inofd ?s" "iw_faults (ino ?s) = []" "valid_event e"
      "ep_ready (epi (wpoll w)) = [(inofd ?s, EPOLLIN)]"
    using ok q by (simp_all add: world_ok_def Let_def)
  show ?thesis
    using loop_iteration_ready [OF nf inv(4) inv(1), of ?s]
      read_inotify_events_one [OF refl inv(2) q inv(3) nm]
    by (simp split: sum.splits)
qed

text \<open>The definitions a concrete start-up and a concrete world unfold to.\<close>

lemmas startup_eval = startup_def register_inotify_files_def inotify_add_watch_def ino_init_def
  no_watch_def watch_lines_def dec_int_def dec_nat.simps digit_char_def size_defs WD_LIMIT_def
  poller_create_def poller_ops_def epoll_poll_add_def epoll_operate_def epoll_ctl_def
  ep_init_def EPOLL_CTL_ADD_def EPOLL_CTL_DEL_def

lemmas world_ok_eval = world_ok_def registry_eval short_paths_def rbuf_ok_def valid_event_def
  int32_ok_def size_defs

end
