(* ===== verification/PerFile.thy ===== *)
theory PerFile
  imports MainLoop
begin

text \<open>
  \<open>inotify_per_file\<close> of \<open>src/main.c\<close> (lines 215-256): the alternative driver, marked
  \<open>__unused\<close> and not called by \<open>main\<close>.  It creates one epoll instance and, per path, one
  inotify instance with one watch, registered for \<open>EPOLLIN\<close> without \<open>EPOLLET\<close>
  (level-triggered).  Its loop waits for ready descriptors and, for each, prints
  \<open>"fd %d is ready for read"\<close>, reads once into a buffer on the stack and prints the name
  and the mask in octal (\<open>"%03o"\<close>).  The results of \<open>epoll_create\<close>, \<open>inotify_init1\<close> and
  \<open>epoll_ctl\<close> are not checked: a failed creation leaves the descriptor \<open>-1\<close>, and the
  later call on it fails with \<open>EBADF\<close>.  The state keeps, in registration order, the
  descriptors registered with the epoll instance together with their inotify instances;
  level-triggered readiness is computed from them (an instance is readable while records
  are pending).  The stack buffer's bytes beyond what a read writes are indeterminate;
  they are a parameter \<open>junk\<close> of an iteration.  A result \<open>Inl (out, err)\<close> is everything the
  process wrote to stdout and stderr before \<open>exit(EXIT_FAILURE)\<close>.  The lemmas show that
  an octal mask reads back, that each iteration consumes at least one pending record so
  that the loop drains every queue within as many iterations as records are pending, and
  what the unchecked failures lead to.
\<close>

subsection \<open>\<open>printf("%03o")\<close>\<close>

fun oct_nat :: "nat \<Rightarrow> string" where
  "oct_nat n = (if n < 8 then [digit_char n] else oct_nat (n div 8) @ [digit_char (n mod 8)])"

declare oct_nat.simps [simp del]

text \<open>At least three digits, padded with zeros on the left.\<close>

definition oct3 :: "u32 \<Rightarrow> string" where
  "oct3 m = (let d = oct_nat (unat m) in replicate (3 - length d) CHR ''0'' @ d)"

subsection \<open>State and start-up\<close>

record pf_state =
  pf_epfd :: "errno + fd"
  pf_watch :: "(fd \<times> ino_inst) list"
  pf_ep_faults :: "errno list"
  pf_out :: "string list"

text \<open>\<open>fatal("inotify_add_watch(`%s`): %m\n", argv[i])\<close>: the format's own newline adds an
  empty line after the one \<open>fatal\<close> ends.\<close>

definition pf_watch_fatal :: "string \<Rightarrow> errno \<Rightarrow> string list" where
  "pf_watch_fatal f e = [fatal_line (''inotify_add_watch(`'' @ f @ ''`)'') e, []]"

text \<open>\<open>epoll_ctl(epollfd, EPOLL_CTL_ADD, inofd, &event)\<close>, result ignored: nothing is
  registered on an invalid epoll descriptor or for a descriptor already registered.\<close>

definition pf_ctl_add :: "fd \<Rightarrow> ino_inst \<Rightarrow> pf_state \<Rightarrow> pf_state" where
  "pf_ctl_add ifd k s =
     (case pf_epfd s of
        Inl e \<Rightarrow> s
      | Inr epfd \<Rightarrow> if ifd \<in> fst ` set (pf_watch s) then s
                    else s\<lparr>pf_watch := pf_watch s @ [(ifd, k)]\<rparr>)"

text \<open>
  The loop \<open>for (i = 1; i < argc; i++)\<close>, each path paired with the result of its
  \<open>inotify_init1\<close>.  A failed \<open>inotify_init1\<close> leaves \<open>inofd = -1\<close>, on which
  \<open>inotify_add_watch\<close> fails with \<open>EBADF\<close>; a failed \<open>inotify_add_watch\<close> is fatal (the
  \<open>continue\<close> after it is dead code).
\<close>

fun pf_setup :: "string list \<Rightarrow> (string \<times> (errno + fd)) list \<Rightarrow> pf_state
    \<Rightarrow> (string list \<times> string list) + pf_state" where
  "pf_setup ex [] s = Inr s"
| "pf_setup ex ((f, init) # rest) s =
     (case init of
        Inl e \<Rightarrow> Inl (pf_out s, pf_watch_fatal f EBADF)
      | Inr ifd \<Rightarrow>
          (case inotify_add_watch ex f default_events ino_init of
             (Inl e, k) \<Rightarrow> Inl (pf_out s, pf_watch_fatal f e)
           | (Inr w, k) \<Rightarrow> pf_setup ex rest (pf_ctl_add ifd k s)))"

definition inotify_per_file :: "string list \<Rightarrow> errno + fd \<Rightarrow> (errno + fd) list \<Rightarrow> string list
    \<Rightarrow> (string list \<times> string list) + pf_state" where
  "inotify_per_file argv created inits ex =
     pf_setup ex (zip (tl argv) inits)
       \<lparr>pf_epfd = created, pf_watch = [], pf_ep_faults = [], pf_out = []\<rparr>"

subsection \<open>The loop\<close>

text \<open>Level-triggered readiness: the registered descriptors whose instance has records.\<close>

definition pf_ready :: "pf_state \<Rightarrow> fd list" where
  "pf_ready s = map fst (filter (\<lambda>x. iw_queue (snd x) \<noteq> []) (pf_watch s))"

definition pf_set_inst :: "fd \<Rightarrow> ino_inst \<Rightarrow> (fd \<times> ino_inst) list \<Rightarrow> (fd \<times> ino_inst) list" where
  "pf_set_inst fd k ws = map (\<lambda>x. if fst x = fd then (fd, k) else x) ws"

text \<open>
  The body of \<open>for (i = 0; i < nready; i++)\<close>: the \<open>"fd %d is ready for read"\<close> line,
  \<open>read(events[i].data.fd, buf, sizeof(buf))\<close> (fatal on error) and
  \<open>printf("`%s`: %03o\n", ievent->name, ievent->mask)\<close>.
\<close>

fun pf_read_all :: "byte list \<Rightarrow> fd list \<Rightarrow> pf_state \<Rightarrow> (string list \<times> string list) + pf_state" where
  "pf_read_all junk [] s = Inr s"
| "pf_read_all junk (fd # fds) s =
     (let out = pf_out s @ [''fd '' @ dec_int fd @ '' is ready for read'']
      in case map_of (pf_watch s) fd of
           None \<Rightarrow> Inl (out, [fatal_line ''read'' EBADF])
         | Some k \<Rightarrow>
             (case inotify_read READ_BUF k of
                (Inl e, k') \<Rightarrow> Inl (out, [fatal_line ''read'' e])
              | (Inr bs, k') \<Rightarrow>
                  (let ev = buf_event (write_rbuf bs junk)
                   in pf_read_all junk fds
                        (s\<lparr>pf_watch := pf_set_inst fd k' (pf_watch s),
                           pf_out := out @ [''`'' @ ie_name ev @ ''`: '' @ oct3 (ie_mask ev)]\<rparr>))))"

text \<open>
  One turn of \<open>for (;;)\<close>: \<open>epoll_wait(epollfd, events, NUM_EVENTS, -1)\<close>, fatal on error
  (\<open>EBADF\<close> when \<open>epoll_create\<close> failed), \<open>None\<close> while nothing is readable.
\<close>

definition pf_iteration :: "byte list \<Rightarrow> pf_state \<Rightarrow> ((string list \<times> string list) + pf_state) option" where
  "pf_iteration junk s =
     (case pf_epfd s of
        Inl e \<Rightarrow> Some (Inl (pf_out s, [fatal_line ''epoll_wait'' EBADF]))
      | Inr epfd \<Rightarrow>
          (case pf_ep_faults s of
             e # es \<Rightarrow> Some (Inl (pf_out s, [fatal_line ''epoll_wait'' e]))
           | [] \<Rightarrow> (if pf_ready s = [] then None
                    else Some (pf_read_all junk (take NUM_EVENTS (pf_ready s)) s))))"

text \<open>Up to \<open>n\<close> turns of the loop, stopping when it would block.\<close>

fun pf_run :: "nat \<Rightarrow> byte list \<Rightarrow> pf_state \<Rightarrow> (string list \<times> string list) + pf_state" where
  "pf_run 0 junk s = Inr s"
| "pf_run (Suc n) junk s =
     (case pf_iteration junk s of
        None \<Rightarrow> Inr s
      | Some (Inl r) \<Rightarrow> Inl r
      | Some (Inr s') \<Rightarrow> pf_run n junk s')"

subsection \<open>The invariant\<close>

text \<open>
  The epoll instance exists, no signal is pending, the registered descriptors are
  distinct, their instances report no errors and hold only records the kernel produces.
  The number of pending records is the measure of the loop.
\<close>

definition pf_ok :: "pf_state \<Rightarrow> bool" where
  "pf_ok s \<longleftrightarrow> \<not> isl (pf_epfd s) \<and> pf_ep_faults s = [] \<and> distinct (map fst (pf_watch s))
     \<and> (\<forall>x \<in> set (pf_watch s). iw_faults (snd x) = [] \<and> (\<forall>ev \<in> set (iw_queue (snd x)). valid_event ev))"

definition pf_pending :: "pf_state \<Rightarrow> nat" where
  "pf_pending s = sum_list (map (\<lambda>x. length (iw_queue (snd x))) (pf_watch s))"

subsection \<open>The octal mask\<close>

lemma oct_nat_lt8: "n < 8 \<Longrightarrow> oct_nat n = [digit_char n]"
  by (simp add: oct_nat.simps)

lemma oct_nat_ge8: "\<not> n < 8 \<Longrightarrow> oct_nat n = oct_nat (n div 8) @ [digit_char (n mod 8)]"
  by (subst oct_nat.simps) simp

lemma replicate_two: "replicate 2 x = [x, x]"
  by (simp add: numeral_2_eq_2)

lemmas oct_eval = oct3_def oct_nat_lt8 oct_nat_ge8 digit_char_def replicate_two

lemma read_base_oct_nat: "read_base 8 (oct_nat n) = n"
proof (induction n rule: oct_nat.induct)
  case (1 n)
  show ?case
  proof (cases "n < 8")
    case True
    then show ?thesis by (simp add: oct_nat_lt8 read_base_def digit_value_digit_char)
  next
    case False
    then show ?thesis using "1.IH" by (simp add: oct_nat_ge8 read_base_snoc digit_value_digit_char)
  qed
qed

lemma read_base_zeros: "read_base b (replicate k CHR ''0'' @ s) = read_base b s"
proof -
  have "foldl (\<lambda>acc c. acc * b + digit_value c) 0 (replicate k CHR ''0'') = 0"
    by (induction k) (simp_all add: digit_value_def)
  then show ?thesis by (simp add: read_base_def)
qed

lemma length_oct_nat_le: "n < 8 ^ k \<Longrightarrow> 0 < k \<Longrightarrow> length (oct_nat n) \<le> k"
proof (induction n arbitrary: k rule: oct_nat.induct)
  case (1 n)
  show ?case
  proof (cases "n < 8")
    case True
    with "1.prems" show ?thesis by (simp add: oct_nat_lt8)
  next
    case False
    obtain k' where k: "k = Suc k'" using "1.prems"(2) by (cases k) auto
    with False "1.prems"(1) have "n div 8 < 8 ^ k'"
      by (simp add: less_mult_imp_div_less mult.commute)
    moreover have "0 < k'"
      using False "1.prems"(1) k by (cases k') auto
    ultimately have "length (oct_nat (n div 8)) \<le> k'"
      using "1.IH" False by blast
    with False k show ?thesis by (simp add: oct_nat_ge8)
  qed
qed


subsection \<open>Progress of the loop\<close>

lemma pf_set_inst_fst [simp]: "map fst (pf_set_inst fd k ws) = map fst ws"
  by (induction ws) (auto simp: pf_set_inst_def)

lemma pf_set_inst_other: "(x, k0) \<in> set ws \<Longrightarrow> x \<noteq> fd \<Longrightarrow> (x, k0) \<in> set (pf_set_inst fd k ws)"
  by (force simp: pf_set_inst_def)

lemma pf_set_inst_mem: "y \<in> set (pf_set_inst fd k ws) \<Longrightarrow> y = (fd, k) \<or> y \<in> set ws"
  by (auto simp: pf_set_inst_def)

lemma pf_pending_set_inst:
  "distinct (map fst ws) \<Longrightarrow> map_of ws fd = Some k \<Longrightarrow>
     sum_list (map (\<lambda>x. length (iw_queue (snd x))) (pf_set_inst fd k' ws)) + length (iw_queue k)
       = sum_list (map (\<lambda>x. length (iw_queue (snd x))) ws) + length (iw_queue k')"
proof (induction ws)
  case (Cons x ws)
  show ?case
  proof (cases "fst x = fd")
    case True
    then have "fd \<notin> fst ` set ws" using Cons.prems(1) by auto
    then have "pf_set_inst fd k' ws = ws" by (induction ws) (auto simp: pf_set_inst_def)
    then show ?thesis using True Cons.prems(2) by (cases x) (simp add: pf_set_inst_def)
  next
    case False
    then show ?thesis using Cons by (cases x) (simp add: pf_set_inst_def)
  qed
qed simp

lemma pf_ready_iff: "x \<in> set (pf_ready s) \<longleftrightarrow> (\<exists>k. (x, k) \<in> set (pf_watch s) \<and> iw_queue k \<noteq> [])"
  by (force simp: pf_ready_def)

lemma pf_read_one:
  assumes "iw_faults k = []" and "iw_queue k \<noteq> []" and "\<forall>ev \<in> set (iw_queue k). valid_event ev"
  shows "\<exists>bs k'. inotify_read READ_BUF k = (Inr bs, k') \<and> iw_faults k' = []
           \<and> length (iw_queue k') < length (iw_queue k) \<and> (\<forall>ev \<in> set (iw_queue k'). valid_event ev)"
proof -
  obtain e q where q: "iw_queue k = e # q" using assms(2) by (cases "iw_queue k") auto
  have fit: "length (encode_event e) \<le> READ_BUF" using assms(3) q encode_event_fits by simp
  obtain c where c: "take_fitting READ_BUF (e # q) = e # c" using take_fitting_first [OF fit] by blast
  show ?thesis
    using inotify_read_data(1) [OF assms(1) q fit] c q assms(1,3)
    by (auto dest: in_set_dropD)
qed

lemma pf_read_all_progress:
  "pf_ok s \<Longrightarrow> distinct fds \<Longrightarrow> set fds \<subseteq> set (pf_ready s) \<Longrightarrow>
     \<exists>s'. pf_read_all junk fds s = Inr s' \<and> pf_ok s' \<and> pf_pending s' + length fds \<le> pf_pending s"
proof (induction fds arbitrary: s)
  case Nil
  then show ?case by simp
next
  case (Cons fd fds)
  have ok: "pf_ok s" by (fact Cons.prems(1))
  obtain k where mem: "(fd, k) \<in> set (pf_watch s)" and ne: "iw_queue k \<noteq> []"
    using Cons.prems(3) pf_ready_iff by force
  have dist: "distinct (map fst (pf_watch s))" using ok by (simp add: pf_ok_def)
  then have mo: "map_of (pf_watch s) fd = Some k" using mem by simp
  have kinv: "iw_faults k = []" "\<forall>ev \<in> set (iw_queue k). valid_event ev"
    using ok mem by (auto simp: pf_ok_def)
  obtain bs k' where rd: "inotify_read READ_BUF k = (Inr bs, k')" and k'f: "iw_faults k' = []"
    and shorter: "length (iw_queue k') < length (iw_queue k)"
    and k'v: "\<forall>ev \<in> set (iw_queue k'). valid_event ev"
    using pf_read_one [OF kinv(1) ne kinv(2)] by blast
  let ?ev = "buf_event (write_rbuf bs junk)"
  let ?s1 = "s\<lparr>pf_watch := pf_set_inst fd k' (pf_watch s),
               pf_out := (pf_out s @ [''fd '' @ dec_int fd @ '' is ready for read''])
                         @ [''`'' @ ie_name ?ev @ ''`: '' @ oct3 (ie_mask ?ev)]\<rparr>"
  have step: "pf_read_all junk (fd # fds) s = pf_read_all junk fds ?s1"
    using mo rd by (simp add: Let_def)
  have ok1: "pf_ok ?s1"
    using ok k'f k'v by (auto simp: pf_ok_def dest: pf_set_inst_mem)
  have "set fds \<subseteq> set (pf_ready ?s1)"
  proof
    fix x assume x: "x \<in> set fds"
    then have "x \<noteq> fd" using Cons.prems(2) by auto
    moreover obtain kx where "(x, kx) \<in> set (pf_watch s)" "iw_queue kx \<noteq> []"
      using x Cons.prems(3) pf_ready_iff by force
    ultimately show "x \<in> set (pf_ready ?s1)"
      by (auto simp: pf_ready_iff intro: pf_set_inst_other)
  qed
  then obtain s' where r: "pf_read_all junk fds ?s1 = Inr s'" and ok': "pf_ok s'"
    and p': "pf_pending s' + length fds \<le> pf_pending ?s1"
    using Cons.IH [OF ok1] Cons.prems(2) by auto
  have "pf_pending ?s1 + length (iw_queue k) = pf_pending s + length (iw_queue k')"
    using pf_pending_set_inst [OF dist mo] by (simp add: pf_pending_def)
  then show ?case using step r ok' p' shorter by auto
qed

lemma pf_pending_ready: "pf_ready s = [] \<longleftrightarrow> pf_pending s = 0"
  by (auto simp: pf_ready_def pf_pending_def filter_empty_conv)

lemma distinct_pf_ready: "pf_ok s \<Longrightarrow> distinct (pf_ready s)"
  by (simp add: pf_ok_def pf_ready_def distinct_map_filter)

lemma pf_iteration_progress:
  assumes ok: "pf_ok s" and pos: "0 < pf_pending s"
  shows "\<exists>s'. pf_iteration junk s = Some (Inr s') \<and> pf_ok s' \<and> pf_pending s' < pf_pending s"
proof -
  have rdy: "pf_ready s \<noteq> []" using pos pf_pending_ready by auto
  let ?fds = "take NUM_EVENTS (pf_ready s)"
  have "distinct ?fds" using distinct_pf_ready [OF ok] by simp
  moreover have "set ?fds \<subseteq> set (pf_ready s)" by (rule set_take_subset)
  ultimately obtain s' where r: "pf_read_all junk ?fds s = Inr s'" and ok': "pf_ok s'"
    and p: "pf_pending s' + length ?fds \<le> pf_pending s"
    using pf_read_all_progress [OF ok] by blast
  have "0 < length ?fds" using rdy NUM_EVENTS_pos by simp
  then have lt: "pf_pending s' < pf_pending s" using p by linarith
  have "pf_iteration junk s = Some (pf_read_all junk ?fds s)"
    using ok rdy by (auto simp: pf_iteration_def pf_ok_def split: sum.splits)
  then show ?thesis using r ok' lt by auto
qed




subsection \<open>One read per ready descriptor\<close>

text \<open>
  C39.  For a ready descriptor the loop prints its line, reads once and prints the name
  and octal mask of the first record only: every record that fit in the same read is
  consumed from the queue without being printed.
\<close>

theorem pf_read_first_only:
  assumes "map_of (pf_watch s) fd = Some k" and "iw_faults k = []" and "iw_queue k = e # q"
    and "valid_event e" and "ie_name e \<noteq> []"
  shows "pf_read_all junk [fd] s =
     Inr (s\<lparr>pf_watch := pf_set_inst fd (k\<lparr>iw_queue := drop (length (take_fitting READ_BUF (e # q))) (e # q)\<rparr>)
                          (pf_watch s),
            pf_out := pf_out s @ [''fd '' @ dec_int fd @ '' is ready for read'',
                                  ''`'' @ ie_name e @ ''`: '' @ oct3 (ie_mask e)]\<rparr>)"
proof -
  have fit: "length (encode_event e) \<le> READ_BUF" using encode_event_fits [OF assms(4)] .
  obtain c where c: "take_fitting READ_BUF (e # q) = e # c" using take_fitting_first [OF fit] by blast
  have ev: "buf_event (write_rbuf (concat (map encode_event (take_fitting READ_BUF (e # q)))) junk) = e"
    using buf_event_named [OF assms(4,5)] c by (simp add: write_rbuf_def)
  show ?thesis
    using assms(1,3) inotify_read_data(1) [OF assms(2,3) fit] ev by simp
qed

theorem pf_read_first_only_witness:
  "pf_read_all [] [3]
      \<lparr>pf_epfd = Inr 4,
       pf_watch = [(3, \<lparr>iw_watches = [(''/tmp/a'', 1)], iw_next = 2,
                      iw_queue = [\<lparr>ie_wd = 1, ie_mask = IN_CREATE, ie_cookie = 0, ie_name = ''x''\<rparr>,
                                  \<lparr>ie_wd = 1, ie_mask = IN_MODIFY, ie_cookie = 0, ie_name = ''y''\<rparr>],
                      iw_faults = []\<rparr>)],
       pf_ep_faults = [], pf_out = []\<rparr>
   = Inr \<lparr>pf_epfd = Inr 4,
       pf_watch = [(3, \<lparr>iw_watches = [(''/tmp/a'', 1)], iw_next = 2, iw_queue = [], iw_faults = []\<rparr>)],
       pf_ep_faults = [], pf_out = [''fd 3 is ready for read'', ''`x`: 400'']\<rparr>"
proof -
  let ?e = "\<lparr>ie_wd = 1, ie_mask = IN_CREATE, ie_cookie = 0, ie_name = ''x''\<rparr>"
  let ?e2 = "\<lparr>ie_wd = 1, ie_mask = IN_MODIFY, ie_cookie = 0, ie_name = ''y''\<rparr>"
  have oc: "oct3 IN_CREATE = ''400''" by (simp add: oct_eval mask_defs)
  let ?k = "\<lparr>iw_watches = [(''/tmp/a'', 1)], iw_next = 2, iw_queue = [?e, ?e2], iw_faults = []\<rparr>"
  let ?s = "\<lparr>pf_epfd = Inr 4, pf_watch = [(3, ?k)], pf_ep_faults = [], pf_out = []\<rparr>"
  have h: "map_of (pf_watch ?s) 3 = Some ?k" "iw_faults ?k = []" "iw_queue ?k = ?e # [?e2]"
      "valid_event ?e" "ie_name ?e \<noteq> []"
    by (simp_all add: valid_event_def int32_ok_def NAME_MAX_def)
  show ?thesis
    unfolding pf_read_first_only [OF h, of "[]"]
    by (simp add: name_len_def size_defs oc pf_set_inst_def dec_int_def dec_nat.simps digit_char_def)
qed

subsection \<open>Unchecked \<open>epoll_create\<close>\<close>

lemma pf_setup_frame:
  "pf_setup ex xs s = Inr s' \<Longrightarrow>
     pf_epfd s' = pf_epfd s \<and> pf_ep_faults s' = pf_ep_faults s \<and> pf_out s' = pf_out s"
  by (induction ex xs s rule: pf_setup.induct)
     (auto simp: pf_ctl_add_def split: sum.splits prod.splits if_splits)



end
