(* ===== verification/Spec2Isabelle.thy ===== *)
theory Spec2Isabelle
  imports PerFile
begin

text \<open>
  \<^bold>\<open>A verification development for the inotify watcher (src/main.c, src/poller.c,
  src/poller.h, src/util.h).\<close>

  \<^bold>\<open>The program.\<close>  \<open>main\<close> checks its arguments and calls \<open>inotify_all_file\<close>, which
  registers every path with one inotify instance (\<open>register_inotify_files\<close>), prints the
  inotify descriptor and the watches, creates an epoll based poller (\<open>poller_create\<close> in
  src/poller.c, reached through the function table \<open>struct poller\<close> of src/poller.h),
  registers the inotify descriptor with it and loops for ever: wait for ready descriptors,
  drain each of them with \<open>read_inotify_events\<close>.  The drain reads the descriptor into a
  static buffer until \<open>EAGAIN\<close>, looks the watch descriptor of the record at the front of
  the buffer up in the registry (\<open>indexof\<close>), rebuilds the full path (\<open>path_of\<close>), prints
  the description of the mask (\<open>inspect_inotify_event\<close>) and, on \<open>IN_CREATE\<close>, adds a
  watch on the new path.  Fatal errors go through \<open>fatal\<close> of src/util.h.

  \<^bold>\<open>The theories.\<close>
  \<^item> \<open>Prelude\<close>: the C vocabulary shared by all components: bytes and 32-bit words,
    \<open>errno\<close> values with their glibc texts, the failure type (a \<open>fatal()\<close> exit, undefined
    behaviour, a read of a foreign descriptor), decimal printing of \<open>%d\<close>, C strings in
    byte buffers, \<open>strstr\<close>, little-endian 32-bit fields.
  \<^item> \<open>Inotify_Event\<close>: \<open>struct inotify_event\<close>, the mask constants and
    \<open>default_events\<close> (main.c 21-22), the kernel's record layout (\<open>encode_event\<close>), the
    cast \<open>(struct inotify_event * ) buf\<close> (\<open>buf_event\<close>) and the specification's
    decoder of a whole buffer (\<open>decode_records\<close>).
  \<^item> \<open>Describe\<close>: \<open>inspect_inotify_event\<close> (main.c 34-73), with its static buffer
    and \<open>snprintf\<close> truncation written out.
  \<^item> \<open>Kernel\<close>: the environment, modelled from the specification and the man pages
    (no code of the repository): the inotify instance (watches, next descriptor, pending
    records, pending read errors) with \<open>inotify_add_watch\<close> and \<open>read\<close>, and the epoll
    instance (interest list, ready list, pending errors) with \<open>epoll_ctl\<close>,
    \<open>epoll_wait\<close> and edge-triggered readiness.
  \<^item> \<open>Registry\<close>: \<open>struct inotify\<close>, \<open>struct inotify_context\<close>, \<open>indexof\<close>,
    \<open>path_of\<close>, \<open>register_inotify_files\<close> (main.c 24-32, 75-99, 144-174), and the
    specification's \<open>resolve_full_path\<close>.
  \<^item> \<open>Dispatch\<close>: the process state \<open>sys\<close> and the handling of one read
    (the body of the loop of \<open>read_inotify_events\<close>, main.c 122-135).
  \<^item> \<open>Reader\<close>: the drain loop \<open>read_inotify_events\<close> (main.c 101-137) as a
    terminating \<open>function\<close>.
  \<^item> \<open>Poller\<close>: \<open>struct poller\<close> as a record of functions over the backend state,
    and the epoll backend (poller.c 8-83).
  \<^item> \<open>MainLoop\<close>: \<open>inotify_all_file\<close> and \<open>main\<close> (main.c 176-213, 258-268): start-up,
    one iteration of the loop, the outcome of \<open>main\<close>, and the running program with its
    environment as an inductive step relation on worlds.
  \<^item> \<open>PerFile\<close>: the unused alternative driver \<open>inotify_per_file\<close> (main.c 215-256):
    one inotify instance per path, a level-triggered epoll loop that reads each ready
    descriptor once and prints the first record's name and its mask in octal
    (\<open>oct3\<close> for \<open>"%03o"\<close>), with its unchecked \<open>epoll_create\<close>/\<open>inotify_init1\<close>
    results as inputs.  Its unbounded loop is \<open>pf_run\<close> with a number of turns as fuel.

  \<^bold>\<open>Correspondence.\<close>  C structs are records, \<open>int\<close> is \<open>int\<close> (kept within 32 bits
  where the kernel produces it), \<open>uint32_t\<close> is \<open>32 word\<close>, byte buffers are lists of
  \<open>8 word\<close>, strings are \<open>string\<close>.  Every function that changes state takes and returns
  the state; \<open>fatal\<close>, undefined behaviour and an unexpected read are \<open>Inl\<close> values of the
  result, and a blocking \<open>epoll_wait\<close> is \<open>None\<close>.  What the program prints is kept as
  lists of lines on stdout and stderr.

  \<^bold>\<open>What is proved.\<close>  The record layout round-trips through the specification's decoder
  and through the cast at the front of the buffer; the description lists exactly the
  names of the set bits, never reaches the truncation of its buffer and carries the cookie
  of a rename; \<open>indexof\<close> is the linear lookup of the specification; \<open>path_of\<close> agrees
  with the specification's full-path function except when the name occurs inside the
  watched path, and fails for paths that do not fit \<open>PATH_MAX\<close>; start-up gives every
  registrable path its slot and distinct descriptors to distinct paths; the drain loop
  always terminates, empties the queue and prints what the first record of each read
  asks for; the epoll backend meets the contract of \<open>wait\<close> whenever one reported entry
  passes its filter; every reachable world of the running program keeps the invariants
  of all components, an iteration drains every pending record and blocks only when
  nothing is pending; \<open>main\<close> exits with \<open>EXIT_FAILURE\<close> and the \<open>fatal\<close> line for every
  start-up error, after the listing already printed.  For \<open>inotify_per_file\<close>: the octal
  mask reads back exactly, the loop drains all queues within as many turns as records are
  pending, and a failed \<open>epoll_create\<close> ends in a fatal \<open>epoll_wait\<close>.  Concrete scenarios
  of the specification are evaluated.

  \<^bold>\<open>Findings.\<close>  Only the first record of each \<open>read\<close> is handled, the others are lost;
  a nameless record prints the name left in the static buffer by an earlier record;
  \<open>path_of\<close>'s substring test misclassifies names that occur in the watched path and it
  writes past \<open>path[PATH_MAX]\<close> for long paths; the watch added on \<open>IN_CREATE\<close> is never
  entered into the registry, so its events are dropped as stale, and its failure is not
  reported; \<open>epoll_poll\<close> leaves \<open>*len\<close> unchanged when no entry passes its filter, and the
  loop then reads descriptor 0; an interrupted \<open>epoll_wait\<close> is fatal.  In
  \<open>inotify_per_file\<close> the results of \<open>epoll_create\<close>, \<open>inotify_init1\<close> and \<open>epoll_ctl\<close>
  are not checked, the \<open>fatal\<close> format of \<open>inotify_add_watch\<close> ends in an extra newline,
  the \<open>continue\<close> after it is dead, and records after the first of a read are dropped.

  \<^bold>\<open>Bounds.\<close>  \<open>NAME_MAX = 255\<close>, \<open>PATH_MAX = 4096\<close>, \<open>NUM_EVENTS = 1024\<close> as in
  the headers; the read buffer has \<open>16 + NAME_MAX + 1\<close> bytes.  Watch descriptors are
  bounded by \<open>INT_MAX\<close> (\<open>WD_LIMIT\<close>).  No fuel is needed: every loop is a \<open>fun\<close> or a
  \<open>function\<close> with a termination proof (the drain loop's measure is the number of
  pending records and errors), and the unbounded \<open>for (;;)\<close> is the step relation.
  The per-file loop \<open>pf_run n\<close> runs at most \<open>n\<close> turns; \<open>n\<close> = the number of pending
  records is enough to drain every queue, since each turn consumes at least one.  The
  per-file read buffer is on the stack: its bytes beyond what \<open>read\<close> writes are a
  parameter \<open>junk\<close>, the theorems hold for every value of it.

  \<^bold>\<open>Not modelled.\<close>  \<open>poller_destroy\<close>, \<open>epoll_poller_destroy\<close> and \<open>inotify_context_destroy\<close> (after the
  endless loop, unreachable); \<open>malloc\<close>/\<open>calloc\<close> failure (the model allocates always);
  the \<open>stdarg\<close> plumbing of \<open>fatal\<close> (its line is \<open>fatal_line\<close>);
  \<open>container_of\<close> (the backend state is passed
  directly); buffering and interleaving of stdout and stderr.
\<close>

section \<open>Properties of the whole program\<close>

lemma not_strstr_tmp_a_x: "\<not> strstr_found ''/tmp/a'' ''x''"
  by (rule not_strstr_found_chars) simp

lemma replicate_NUM_EVENTS: "replicate NUM_EVENTS x = x # replicate (NUM_EVENTS - 1) x"
proof -
  obtain n where n: "NUM_EVENTS = Suc n" using NUM_EVENTS_pos gr0_conv_Suc by blast
  show ?thesis by (simp only: n replicate_Suc diff_Suc_1)
qed

text \<open>
  C1.  Every world reachable from a successful start-up satisfies the invariant of the
  running program: the registry is consistent with the kernel, the buffer keeps its final
  NUL, the pending records are valid, the inotify descriptor is the only fd registered
  with the poller and is ready exactly when records are pending.
\<close>

theorem world_invariant:
  assumes "startup init created ex files = Inr (s, p)" and "good_start init files"
    and "step\<^sup>*\<^sup>* \<lparr>wsys = s, wpoll = p\<rparr> w"
  shows "world_ok w"
  using assms(3)
proof (induction rule: rtranclp_induct)
  case base
  then show ?case using world_ok_startup [OF assms(1,2)] by simp
next
  case (step y z)
  then show ?case using world_ok_step by blast
qed

theorem world_invariant_witness:
  "world_ok (deliver ''/tmp/a'' IN_MODIFY 0 [] \<lparr>wsys = \<lparr>inofd = 3,
      inotifies = [\<lparr>watchfd = 1, path = Some ''/tmp/a''\<rparr>], rbuf = replicate READ_BUF 0,
      stdout = [''inotify fd: 3'', ''watchfd: 1 for path: `/tmp/a`''], stderr = [],
      ino = \<lparr>iw_watches = [(''/tmp/a'', 1)], iw_next = 2, iw_queue = [], iw_faults = []\<rparr>,
      fs = [''/tmp/a'']\<rparr>,
    wpoll = \<lparr>epollfd = 4, epi = \<lparr>ep_interest = [(3, EPOLLIN OR EPOLLET)], ep_ready = [],
      ep_faults = []\<rparr>\<rparr>\<rparr>)"
proof -
  let ?s = "\<lparr>inofd = 3,
      inotifies = [\<lparr>watchfd = 1, path = Some ''/tmp/a''\<rparr>], rbuf = replicate READ_BUF 0,
      stdout = [''inotify fd: 3'', ''watchfd: 1 for path: `/tmp/a`''], stderr = [],
      ino = \<lparr>iw_watches = [(''/tmp/a'', 1)], iw_next = 2, iw_queue = [], iw_faults = []\<rparr>,
      fs = [''/tmp/a'']\<rparr>"
  let ?p = "\<lparr>epollfd = 4, epi = \<lparr>ep_interest = [(3, EPOLLIN OR EPOLLET)], ep_ready = [],
      ep_faults = []\<rparr>\<rparr>"
  have st: "startup (Inr 3) (Inr 4) [''/tmp/a''] [''/tmp/a''] = Inr (?s, ?p)"
    by (simp add: startup_eval)
  have good: "good_start (Inr 3) [''/tmp/a'']"
    by (simp add: good_start_def size_defs WD_LIMIT_def)
  have "step \<lparr>wsys = ?s, wpoll = ?p\<rparr> (deliver ''/tmp/a'' IN_MODIFY 0 [] \<lparr>wsys = ?s, wpoll = ?p\<rparr>)"
    by (rule step.notify) simp
  then have "step\<^sup>*\<^sup>* \<lparr>wsys = ?s, wpoll = ?p\<rparr> (deliver ''/tmp/a'' IN_MODIFY 0 [] \<lparr>wsys = ?s, wpoll = ?p\<rparr>)"
    by (rule r_into_rtranclp)
  then show ?thesis using world_invariant [OF st good] by simp
qed

text \<open>
  C2.  While a record is pending and no signal has arrived, an iteration of the main loop does
  not block: it runs, drains every pending record, leaves the inotify descriptor not
  ready, and the invariant of the running program still holds afterwards.
\<close>

theorem iteration_drains:
  assumes ok: "world_ok w" and nf: "ep_faults (epi (wpoll w)) = []" and q: "iw_queue (ino (wsys w)) \<noteq> []"
  shows "\<exists>p' s'. loop_iteration poller_ops (wpoll w) (wsys w) = Some (Inr (p', s'))
           \<and> iw_queue (ino s') = [] \<and> ep_ready (epi p') = [] \<and> world_ok \<lparr>wsys = s', wpoll = p'\<rparr>"
proof -
  let ?s = "wsys w"
  have inv: "0 < inofd ?s" "ep_ready (epi (wpoll w)) = [(inofd ?s, EPOLLIN)]"
    using ok q by (simp_all add: world_ok_def Let_def)
  have "drain_pre (inofd ?s) ?s" using ok by (rule world_ok_drain_pre)
  then obtain s' where dr: "read_inotify_events (inofd ?s) ?s = Inr s'" and post: "drain_post ?s s'"
    using read_inotify_events_drain by blast
  have it: "loop_iteration poller_ops (wpoll w) ?s
              = Some (Inr ((wpoll w)\<lparr>epi := (epi (wpoll w))\<lparr>ep_ready := []\<rparr>\<rparr>, s'))"
    using loop_iteration_ready [OF nf inv(2) inv(1), of ?s] dr by simp
  then show ?thesis
    using world_ok_iterate [OF ok it] post by (auto simp: drain_post_def)
qed

theorem iteration_drains_witness:
  "\<exists>p' s'. loop_iteration poller_ops
      \<lparr>epollfd = 4, epi = \<lparr>ep_interest = [(3, EPOLLIN OR EPOLLET)], ep_ready = [(3, EPOLLIN)], ep_faults = []\<rparr>\<rparr>
      \<lparr>inofd = 3, inotifies = [\<lparr>watchfd = 1, path = Some ''/tmp/a''\<rparr>], rbuf = replicate READ_BUF 0,
       stdout = [], stderr = [],
       ino = \<lparr>iw_watches = [(''/tmp/a'', 1)], iw_next = 2,
              iw_queue = [\<lparr>ie_wd = 1, ie_mask = IN_MODIFY, ie_cookie = 0, ie_name = ''x''\<rparr>], iw_faults = []\<rparr>,
       fs = [''/tmp/a'']\<rparr> = Some (Inr (p', s')) \<and> iw_queue (ino s') = []"
proof -
  let ?p = "\<lparr>epollfd = 4, epi = \<lparr>ep_interest = [(3, EPOLLIN OR EPOLLET)], ep_ready = [(3, EPOLLIN)], ep_faults = []\<rparr>\<rparr>"
  let ?s = "\<lparr>inofd = 3, inotifies = [\<lparr>watchfd = 1, path = Some ''/tmp/a''\<rparr>], rbuf = replicate READ_BUF 0,
       stdout = [], stderr = [],
       ino = \<lparr>iw_watches = [(''/tmp/a'', 1)], iw_next = 2,
              iw_queue = [\<lparr>ie_wd = 1, ie_mask = IN_MODIFY, ie_cookie = 0, ie_name = ''x''\<rparr>], iw_faults = []\<rparr>,
       fs = [''/tmp/a'']\<rparr>"
  have "world_ok \<lparr>wsys = ?s, wpoll = ?p\<rparr>"
    by (simp add: world_ok_eval)
  then show ?thesis using iteration_drains [of "\<lparr>wsys = ?s, wpoll = ?p\<rparr>"] by auto
qed

text \<open>
  C3.  With no signal pending, an iteration blocks in \<open>epoll_wait\<close> exactly when no record
  is pending: the edge-triggered poller never waits while input is unread.
\<close>

theorem iteration_blocks_iff_idle:
  assumes ok: "world_ok w" and nf: "ep_faults (epi (wpoll w)) = []"
  shows "loop_iteration poller_ops (wpoll w) (wsys w) = None \<longleftrightarrow> iw_queue (ino (wsys w)) = []"
proof (cases "iw_queue (ino (wsys w)) = []")
  case True
  then have "ep_ready (epi (wpoll w)) = []" using ok by (simp add: world_ok_def Let_def)
  then show ?thesis using loop_iteration_block [OF nf] True by simp
next
  case False
  then have "0 < inofd (wsys w)" "ep_ready (epi (wpoll w)) = [(inofd (wsys w), EPOLLIN)]"
    using ok by (simp_all add: world_ok_def Let_def)
  then show ?thesis using loop_iteration_ready [OF nf, of "inofd (wsys w)" "wsys w"] False by simp
qed

theorem iteration_blocks_iff_idle_witness:
  "loop_iteration poller_ops
      \<lparr>epollfd = 4, epi = \<lparr>ep_interest = [(3, EPOLLIN OR EPOLLET)], ep_ready = [], ep_faults = []\<rparr>\<rparr>
      \<lparr>inofd = 3, inotifies = [\<lparr>watchfd = 1, path = Some ''/tmp/a''\<rparr>], rbuf = replicate READ_BUF 0,
       stdout = [], stderr = [],
       ino = \<lparr>iw_watches = [(''/tmp/a'', 1)], iw_next = 2, iw_queue = [], iw_faults = []\<rparr>,
       fs = [''/tmp/a'']\<rparr> = None"
proof -
  let ?p = "\<lparr>epollfd = 4, epi = \<lparr>ep_interest = [(3, EPOLLIN OR EPOLLET)], ep_ready = [], ep_faults = []\<rparr>\<rparr>"
  let ?s = "\<lparr>inofd = 3, inotifies = [\<lparr>watchfd = 1, path = Some ''/tmp/a''\<rparr>], rbuf = replicate READ_BUF 0,
       stdout = [], stderr = [],
       ino = \<lparr>iw_watches = [(''/tmp/a'', 1)], iw_next = 2, iw_queue = [], iw_faults = []\<rparr>,
       fs = [''/tmp/a'']\<rparr>"
  have "world_ok \<lparr>wsys = ?s, wpoll = ?p\<rparr>"
    by (simp add: world_ok_eval)
  then show ?thesis using iteration_blocks_iff_idle [of "\<lparr>wsys = ?s, wpoll = ?p\<rparr>"] by simp
qed

text \<open>
  C5.  The scenario of the specification: watching \<open>/tmp/a\<close>, creating \<open>/tmp/a/x\<close>
  prints a line with the path \<open>/tmp/a/x\<close> and the description CREATE and leaves a new
  kernel watch for \<open>/tmp/a/x\<close> (descriptor 2, distinct from the descriptor 1 of
  \<open>/tmp/a\<close>); writing to \<open>/tmp/a/x\<close> then prints a line with the description MODIFY.
\<close>

theorem scenario_create_modify:
  "\<exists>s0 p0. startup (Inr 3) (Inr 4) [''/tmp/a''] [''/tmp/a''] = Inr (s0, p0)
     \<and> (let w1 = deliver ''/tmp/a'' IN_CREATE 0 ''x'' \<lparr>wsys = s0\<lparr>fs := fs s0 @ [''/tmp/a/x'']\<rparr>, wpoll = p0\<rparr>
        in \<exists>p1 s1. loop_iteration poller_ops (wpoll w1) (wsys w1) = Some (Inr (p1, s1))
           \<and> stdout s1 = stdout s0 @ [''`/tmp/a/x`: CREATE(event.name=`x`)'']
           \<and> map_of (iw_watches (ino s1)) ''/tmp/a/x'' = Some 2 \<and> map_of (iw_watches (ino s1)) ''/tmp/a'' = Some 1
           \<and> (let w2 = deliver ''/tmp/a'' IN_MODIFY 0 ''x'' \<lparr>wsys = s1, wpoll = p1\<rparr>
              in \<exists>p2 s2. loop_iteration poller_ops (wpoll w2) (wsys w2) = Some (Inr (p2, s2))
                 \<and> stdout s2 = stdout s1 @ [''`/tmp/a/x`: MODIFY(event.name=`x`)'']))"
proof -
  let ?S0 = "\<lparr>inofd = 3,
      inotifies = [\<lparr>watchfd = 1, path = Some ''/tmp/a''\<rparr>], rbuf = replicate READ_BUF 0,
      stdout = [''inotify fd: 3'', ''watchfd: 1 for path: `/tmp/a`''], stderr = [],
      ino = \<lparr>iw_watches = [(''/tmp/a'', 1)], iw_next = 2, iw_queue = [], iw_faults = []\<rparr>,
      fs = [''/tmp/a'']\<rparr>"
  let ?P0 = "\<lparr>epollfd = 4, epi = \<lparr>ep_interest = [(3, EPOLLIN OR EPOLLET)], ep_ready = [],
      ep_faults = []\<rparr>\<rparr>"
  let ?e1 = "\<lparr>ie_wd = 1, ie_mask = IN_CREATE, ie_cookie = 0, ie_name = ''x''\<rparr>"
  let ?e2 = "\<lparr>ie_wd = 1, ie_mask = IN_MODIFY, ie_cookie = 0, ie_name = ''x''\<rparr>"
  let ?W1 = "deliver ''/tmp/a'' IN_CREATE 0 ''x'' \<lparr>wsys = ?S0\<lparr>fs := fs ?S0 @ [''/tmp/a/x'']\<rparr>, wpoll = ?P0\<rparr>"
  let ?S1 = "\<lparr>inofd = 3,
      inotifies = [\<lparr>watchfd = 1, path = Some ''/tmp/a''\<rparr>],
      rbuf = write_rbuf (encode_event ?e1) (replicate READ_BUF 0),
      stdout = [''inotify fd: 3'', ''watchfd: 1 for path: `/tmp/a`'', ''`/tmp/a/x`: CREATE(event.name=`x`)''],
      stderr = [],
      ino = \<lparr>iw_watches = [(''/tmp/a/x'', 2), (''/tmp/a'', 1)], iw_next = 3, iw_queue = [], iw_faults = []\<rparr>,
      fs = [''/tmp/a'', ''/tmp/a/x'']\<rparr>"
  let ?P1 = "\<lparr>epollfd = 4, epi = \<lparr>ep_interest = [(3, EPOLLIN OR EPOLLET)], ep_ready = [],
      ep_faults = []\<rparr>\<rparr>"
  let ?W2 = "deliver ''/tmp/a'' IN_MODIFY 0 ''x'' \<lparr>wsys = ?S1, wpoll = ?P1\<rparr>"
  have st: "startup (Inr 3) (Inr 4) [''/tmp/a''] [''/tmp/a''] = Inr (?S0, ?P0)"
    by (simp add: startup_eval)
  have ok0: "world_ok \<lparr>wsys = ?S0\<lparr>fs := fs ?S0 @ [''/tmp/a/x'']\<rparr>, wpoll = ?P0\<rparr>"
    using world_ok_startup [OF st] by (simp add: good_start_def size_defs WD_LIMIT_def world_ok_def)
  have ok1: "world_ok ?W1" by (rule world_ok_deliver [OF ok0]) (simp add: valid_name_def NAME_MAX_def)
  have w1: "iw_queue (ino (wsys ?W1)) = [?e1]" "ep_faults (epi (wpoll ?W1)) = []"
    by (simp_all add: deliver_def queue_event_def ep_signal_def)
  have it1: "loop_iteration poller_ops (wpoll ?W1) (wsys ?W1) = Some (Inr (?P1, ?S1))"
    using loop_iteration_one [OF ok1 w1(2) w1(1)] not_strstr_tmp_a_x
    by (simp add: deliver_def queue_event_def ep_signal_def EPOLLIN_def
        EPOLLET_def handle_record_def indexof_def output_eval inotify_add_watch_def WD_LIMIT_def)
  have ok1': "world_ok \<lparr>wsys = ?S1, wpoll = ?P1\<rparr>" using world_ok_iterate [OF ok1 it1] by simp
  have ok2: "world_ok ?W2" by (rule world_ok_deliver [OF ok1']) (simp add: valid_name_def NAME_MAX_def)
  have w2: "iw_queue (ino (wsys ?W2)) = [?e2]" "ep_faults (epi (wpoll ?W2)) = []"
    by (simp_all add: deliver_def queue_event_def ep_signal_def)
  have it2: "\<exists>p2 s2. loop_iteration poller_ops (wpoll ?W2) (wsys ?W2) = Some (Inr (p2, s2))
                 \<and> stdout s2 = stdout ?S1 @ [''`/tmp/a/x`: MODIFY(event.name=`x`)'']"
    using loop_iteration_one [OF ok2 w2(2) w2(1)] not_strstr_tmp_a_x
    by (simp add: deliver_def queue_event_def ep_signal_def EPOLLIN_def
        EPOLLET_def handle_record_def indexof_def output_eval)
  show ?thesis
    using st it1 it2 by (simp add: Let_def)
qed

text \<open>
  C6.  When one \<open>read\<close> returns two records, only the first is reported: the second is
  consumed from the kernel's queue and lost.
\<close>

theorem first_record_only:
  "\<exists>p' s'. loop_iteration poller_ops
      \<lparr>epollfd = 4, epi = \<lparr>ep_interest = [(3, EPOLLIN OR EPOLLET)], ep_ready = [(3, EPOLLIN)], ep_faults = []\<rparr>\<rparr>
      \<lparr>inofd = 3, inotifies = [\<lparr>watchfd = 1, path = Some ''/tmp/a''\<rparr>], rbuf = replicate READ_BUF 0,
       stdout = [], stderr = [],
       ino = \<lparr>iw_watches = [(''/tmp/a'', 1)], iw_next = 2,
              iw_queue = [\<lparr>ie_wd = 1, ie_mask = IN_MODIFY, ie_cookie = 0, ie_name = ''x''\<rparr>,
                          \<lparr>ie_wd = 1, ie_mask = IN_MODIFY, ie_cookie = 0, ie_name = ''y''\<rparr>], iw_faults = []\<rparr>,
       fs = [''/tmp/a'']\<rparr> = Some (Inr (p', s'))
    \<and> stdout s' = [''`/tmp/a/x`: MODIFY(event.name=`x`)''] \<and> iw_queue (ino s') = []"
proof -
  let ?e1 = "\<lparr>ie_wd = 1, ie_mask = IN_MODIFY, ie_cookie = 0, ie_name = ''x''\<rparr>"
  let ?e2 = "\<lparr>ie_wd = 1, ie_mask = IN_MODIFY, ie_cookie = 0, ie_name = ''y''\<rparr>"
  let ?p = "\<lparr>epollfd = 4, epi = \<lparr>ep_interest = [(3, EPOLLIN OR EPOLLET)], ep_ready = [(3, EPOLLIN)], ep_faults = []\<rparr>\<rparr>"
  let ?s = "\<lparr>inofd = 3, inotifies = [\<lparr>watchfd = 1, path = Some ''/tmp/a''\<rparr>], rbuf = replicate READ_BUF 0,
       stdout = [], stderr = [],
       ino = \<lparr>iw_watches = [(''/tmp/a'', 1)], iw_next = 2, iw_queue = [?e1, ?e2], iw_faults = []\<rparr>,
       fs = [''/tmp/a'']\<rparr>"
  have pre: "drain_pre 3 ?s"
    by (simp add: drain_pre_def registry_eval
        short_paths_def size_defs rbuf_ok_def valid_event_def int32_ok_def)
  obtain s' where dr: "read_inotify_events 3 ?s = Inr s'" and post: "drain_post ?s s'"
    using read_inotify_events_drain [OF pre] by blast
  have fit: "take_fitting READ_BUF [?e1, ?e2] = [?e1, ?e2]"
    by (simp add: encode_event_def name_len_def size_defs le32_def bytes_of_string_def)
  have ch: "read_chunks READ_BUF [?e1, ?e2] = [[?e1, ?e2]]"
    using fit by (simp add: read_chunks.simps [of READ_BUF "[?e1, ?e2]"])
  have nf: "\<not> strstr_found ''/tmp/a'' ''x''" by (rule not_strstr_found_chars) simp
  have eo: "event_output (inotifies ?s) ?e1 = [''`/tmp/a/x`: MODIFY(event.name=`x`)'']"
    using nf by (simp add: output_eval)
  have it: "loop_iteration poller_ops ?p ?s = Some (Inr (?p\<lparr>epi := (epi ?p)\<lparr>ep_ready := []\<rparr>\<rparr>, s'))"
    using loop_iteration_ready [of ?p 3 ?s] dr by simp
  show ?thesis
    using it post ch eo by (simp add: drain_post_def)
qed


text \<open>
  C29.  A signal delivered while the program waits in \<open>epoll_wait\<close> ends it with
  \<open>fatal("epoll_wait: %m")\<close> on \<open>EINTR\<close>, although the drain loop retries interrupted reads.
\<close>

theorem signal_fatal:
  assumes ok: "world_ok w" and sig: "ep_faults (epi (wpoll w)) \<noteq> []"
  shows "loop_iteration poller_ops (wpoll w) (wsys w) = Some (Inl (Fatal ''epoll_wait'' EINTR))"
proof -
  obtain e es where f: "ep_faults (epi (wpoll w)) = e # es" using sig by (cases "ep_faults (epi (wpoll w))") auto
  then have "e = EINTR" using ok by (auto simp: world_ok_def Let_def)
  then show ?thesis using loop_iteration_fault [OF f] by simp
qed

theorem signal_fatal_witness:
  "loop_iteration poller_ops
      \<lparr>epollfd = 4, epi = \<lparr>ep_interest = [(3, EPOLLIN OR EPOLLET)], ep_ready = [], ep_faults = [EINTR]\<rparr>\<rparr>
      \<lparr>inofd = 3, inotifies = [\<lparr>watchfd = 1, path = Some ''/tmp/a''\<rparr>], rbuf = replicate READ_BUF 0,
       stdout = [], stderr = [],
       ino = \<lparr>iw_watches = [(''/tmp/a'', 1)], iw_next = 2, iw_queue = [], iw_faults = []\<rparr>,
       fs = [''/tmp/a'']\<rparr> = Some (Inl (Fatal ''epoll_wait'' EINTR))"
proof -
  let ?p = "\<lparr>epollfd = 4, epi = \<lparr>ep_interest = [(3, EPOLLIN OR EPOLLET)], ep_ready = [], ep_faults = [EINTR]\<rparr>\<rparr>"
  let ?s = "\<lparr>inofd = 3, inotifies = [\<lparr>watchfd = 1, path = Some ''/tmp/a''\<rparr>], rbuf = replicate READ_BUF 0,
       stdout = [], stderr = [],
       ino = \<lparr>iw_watches = [(''/tmp/a'', 1)], iw_next = 2, iw_queue = [], iw_faults = []\<rparr>,
       fs = [''/tmp/a'']\<rparr>"
  have "world_ok \<lparr>wsys = ?s, wpoll = ?p\<rparr>"
    by (simp add: world_ok_eval)
  then show ?thesis using signal_fatal [of "\<lparr>wsys = ?s, wpoll = ?p\<rparr>"] by simp
qed

text \<open>
  C30.  \<open>main\<close> with fewer than one path writes only the usage message, to stderr, and
  exits with 1; a failing \<open>inotify_init1\<close> or \<open>epoll_create\<close> ends the program through
  \<open>fatal\<close>: \<open>"fatal error: <call>: <strerror>"\<close> on stderr and exit status 1.
\<close>

theorem main_errors:
  "(length argv < 2 \<longrightarrow> exit_report (main_prog argv init created ex) = Some ([], [usage_line argv], 1))
   \<and> (2 \<le> length argv \<and> init = Inl e \<longrightarrow>
        exit_report (main_prog argv init created ex) = Some ([], [''fatal error: inotify_init1: '' @ strerror e], 1))
   \<and> (2 \<le> length argv \<and> init = Inr fd \<and> created = Inl e \<longrightarrow>
        (\<exists>out err. main_prog argv init created ex = Failed out err (Fatal ''epoll_create1'' e)
           \<and> exit_report (main_prog argv init created ex)
               = Some (out, err @ [''fatal error: epoll_create1: '' @ strerror e], 1)))"
  by (auto simp: main_prog_def startup_def register_inotify_files_def poller_create_def exit_report_def
      fatal_line_def EXIT_FAILURE_def Let_def split: prod.splits)

theorem main_errors_witness:
  "exit_report (main_prog [''inotify''] (Inr 3) (Inr 4) [])
     = Some ([], [''Usage: inotify file1 [file2 file3...]''], 1)"
  using main_errors [of "[''inotify'']" "Inr 3" "Inr 4" "[]"]
  by (simp add: usage_line_def)







text \<open>
  C33.  When \<open>epoll_wait\<close> reports entries of which none passes the filter of
  \<open>epoll_poll\<close> (\<open>fd > 0\<close> and \<open>EPOLLIN\<close>), \<open>nready\<close> stays at \<open>NUM_EVENTS\<close> and the
  loop calls \<open>read_inotify_events\<close> on each of the \<open>NUM_EVENTS\<close> zeroed entries: it reads
  descriptor 0.
\<close>

theorem loop_reads_fd_zero:
  assumes nf: "ep_faults (epi p) = []" and rd: "ep_ready (epi p) \<noteq> []"
    and none: "filter passes (take NUM_EVENTS (ep_ready (epi p))) = []"
  shows "loop_iteration poller_ops p s =
           Some (case read_all (replicate NUM_EVENTS 0) s of
                   Inl f \<Rightarrow> Inl f
                 | Inr s' \<Rightarrow> Inr (p\<lparr>epi := (epi p)\<lparr>ep_ready := drop NUM_EVENTS (ep_ready (epi p))\<rparr>\<rparr>, s'))"
proof -
  have w: "epoll_wait NUM_EVENTS (epi p) = Some (Inr (take NUM_EVENTS (ep_ready (epi p))),
             (epi p)\<lparr>ep_ready := drop NUM_EVENTS (ep_ready (epi p))\<rparr>)"
    using nf rd NUM_EVENTS_pos by (simp add: epoll_wait_def)
  have c: "epoll_copy (take NUM_EVENTS (ep_ready (epi p))) (replicate NUM_EVENTS 0) 0 NUM_EVENTS
             = (replicate NUM_EVENTS 0, NUM_EVENTS)"
    using epoll_copy_eq [of 0 "take NUM_EVENTS (ep_ready (epi p))" "replicate NUM_EVENTS 0" NUM_EVENTS] none
    by simp
  show ?thesis
    using w c by (simp add: loop_iteration_def poller_ops_def epoll_poll_def)
qed

theorem loop_reads_fd_zero_witness:
  "loop_iteration poller_ops
      \<lparr>epollfd = 4, epi = \<lparr>ep_interest = [(3, EPOLLIN OR EPOLLET)], ep_ready = [(3, EPOLLERR)], ep_faults = []\<rparr>\<rparr>
      \<lparr>inofd = 3, inotifies = [], rbuf = replicate READ_BUF 0, stdout = [], stderr = [],
       ino = \<lparr>iw_watches = [], iw_next = 1, iw_queue = [], iw_faults = []\<rparr>, fs = []\<rparr>
   = Some (Inl (Foreign_read 0))"
proof -
  let ?s = "\<lparr>inofd = 3, inotifies = [], rbuf = replicate READ_BUF 0, stdout = [], stderr = [],
       ino = \<lparr>iw_watches = [], iw_next = 1, iw_queue = [], iw_faults = []\<rparr>, fs = []\<rparr>"
  have "read_inotify_events 0 ?s = Inl (Foreign_read 0)"
    by (simp add: read_inotify_events.simps [of 0 ?s])
  then have "read_all (replicate NUM_EVENTS 0) ?s = Inl (Foreign_read 0)"
    by (simp add: replicate_NUM_EVENTS)
  then show ?thesis
    using loop_reads_fd_zero [of "\<lparr>epollfd = 4, epi = \<lparr>ep_interest = [(3, EPOLLIN OR EPOLLET)],
        ep_ready = [(3, EPOLLERR)], ep_faults = []\<rparr>\<rparr>" ?s] NUM_EVENTS_pos
    by (simp add: passes_def EPOLLIN_def EPOLLERR_def)
qed

end
